theory Spec2Isabelle
  imports Complex_Main
begin

section \<open>Offset-mode chunk planning (DataAcqusitionLab/make_requests.py)\<close>

text \<open>
  The module constants of \<^verbatim>\<open>make_requests.py\<close>. Python integers are unbounded, so
  they are \<^typ>\<open>int\<close>.
\<close>

definition LIMIT :: int where "LIMIT = 1000"
definition TOTAL_RECORDS :: int where "TOTAL_RECORDS = 38859"
definition DELAY_BETWEEN_REQUESTS :: int where "DELAY_BETWEEN_REQUESTS = 2"
definition MAX_RETRIES :: int where "MAX_RETRIES = 3"

text \<open>
  \<^verbatim>\<open>num_requests = (TOTAL_RECORDS + LIMIT - 1) // LIMIT\<close> (line 113), as a function of the
  two constants it reads. Python's \<^verbatim>\<open>//\<close> is floor division, which is \<open>div\<close> on \<^typ>\<open>int\<close>.
\<close>

definition num_requests :: "int \<Rightarrow> int \<Rightarrow> int" where
  "num_requests total_units limit = (total_units + limit - 1) div limit"

text \<open>\<^verbatim>\<open>range(n)\<close>: the integers \<open>0, ..., n - 1\<close>, empty when \<open>n \<le> 0\<close>.\<close>

definition range_py :: "int \<Rightarrow> int list" where
  "range_py n = map int [0..<nat n]"

text \<open>\<^verbatim>\<open>offset = i * LIMIT + 1\<close> (line 129).\<close>

definition chunk_offset :: "int \<Rightarrow> int \<Rightarrow> int" where
  "chunk_offset limit i = i * limit + 1"

text \<open>\<^verbatim>\<open>min(offset + LIMIT - 1, TOTAL_RECORDS)\<close> (line 130), the last record of chunk \<open>i\<close>.\<close>

definition chunk_last :: "int \<Rightarrow> int \<Rightarrow> int \<Rightarrow> int" where
  "chunk_last total_units limit i = min (chunk_offset limit i + limit - 1) total_units"

text \<open>The ranges the loop of \<^verbatim>\<open>main\<close> announces, in order: one pair per \<open>i\<close>.\<close>

definition planned_ranges :: "int \<Rightarrow> int \<Rightarrow> (int \<times> int) list" where
  "planned_ranges total_units limit =
     map (\<lambda>i. (chunk_offset limit i, chunk_last total_units limit i))
       (range_py (num_requests total_units limit))"

section \<open>Python values\<close>

text \<open>
  What \<^verbatim>\<open>json.loads\<close> returns: \<^verbatim>\<open>None\<close>, a bool, an int, a float, a string, a list or a
  dict with string keys (an association list in insertion order, keys distinct). Only
  the zero test of a float is ever used, so a float is kept as a rational.
\<close>

datatype json =
    JNull
  | JBool bool
  | JInt int
  | JFloat rat
  | JStr string
  | JArr "json list"
  | JObj "(string \<times> json) list"

text \<open>The exceptions that no handler of the two scripts catches.\<close>

datatype exc = TypeError | AttributeError | KeyError | OSError

text \<open>Truth value of a Python object (\<^verbatim>\<open>if data\<close>, \<^verbatim>\<open>data and ...\<close>).\<close>

fun truthy :: "json \<Rightarrow> bool" where
  "truthy JNull = False"
| "truthy (JBool b) = b"
| "truthy (JInt n) = (n \<noteq> 0)"
| "truthy (JFloat q) = (q \<noteq> 0)"
| "truthy (JStr s) = (s \<noteq> [])"
| "truthy (JArr xs) = (xs \<noteq> [])"
| "truthy (JObj kvs) = (kvs \<noteq> [])"

text \<open>\<^verbatim>\<open>s.startswith(p)\<close>, \<^verbatim>\<open>s.endswith(p)\<close> and \<^verbatim>\<open>p in s\<close> on strings.\<close>

definition startswith :: "string \<Rightarrow> string \<Rightarrow> bool" where
  "startswith s p = (take (length p) s = p)"

definition endswith :: "string \<Rightarrow> string \<Rightarrow> bool" where
  "endswith s p = (length p \<le> length s \<and> drop (length s - length p) s = p)"

fun is_substring :: "string \<Rightarrow> string \<Rightarrow> bool" where
  "is_substring p [] = (p = [])"
| "is_substring p (c # s) = (startswith (c # s) p \<or> is_substring p s)"

text \<open>
  \<^verbatim>\<open>k in data\<close>: a key test on a dict, an element test on a list, a substring test on a
  string; numbers, bools and \<^verbatim>\<open>None\<close> are not iterable and raise \<^verbatim>\<open>TypeError\<close>.
\<close>

fun contains_py :: "string \<Rightarrow> json \<Rightarrow> exc + bool" where
  "contains_py k (JObj kvs) = Inr (k \<in> set (map fst kvs))"
| "contains_py k (JArr xs) = Inr (JStr k \<in> set xs)"
| "contains_py k (JStr s) = Inr (is_substring k s)"
| "contains_py k JNull = Inl TypeError"
| "contains_py k (JBool b) = Inl TypeError"
| "contains_py k (JInt n) = Inl TypeError"
| "contains_py k (JFloat q) = Inl TypeError"

text \<open>\<^verbatim>\<open>data[k]\<close> with a string \<open>k\<close>: only a dict accepts a string subscript.\<close>

fun subscript_py :: "json \<Rightarrow> string \<Rightarrow> exc + json" where
  "subscript_py (JObj kvs) k = (case map_of kvs k of Some v \<Rightarrow> Inr v | None \<Rightarrow> Inl KeyError)"
| "subscript_py (JArr xs) k = Inl TypeError"
| "subscript_py (JStr s) k = Inl TypeError"
| "subscript_py JNull k = Inl TypeError"
| "subscript_py (JBool b) k = Inl TypeError"
| "subscript_py (JInt n) k = Inl TypeError"
| "subscript_py (JFloat q) k = Inl TypeError"

text \<open>\<^verbatim>\<open>len(v)\<close>.\<close>

fun len_py :: "json \<Rightarrow> exc + nat" where
  "len_py (JArr xs) = Inr (length xs)"
| "len_py (JStr s) = Inr (length s)"
| "len_py (JObj kvs) = Inr (length kvs)"
| "len_py JNull = Inl TypeError"
| "len_py (JBool b) = Inl TypeError"
| "len_py (JInt n) = Inl TypeError"
| "len_py (JFloat q) = Inl TypeError"

text \<open>\<^verbatim>\<open>str(n)\<close> of an integer, as the f-strings of both scripts format it.\<close>

definition digit_char :: "nat \<Rightarrow> char" where
  "digit_char d = ''0123456789'' ! d"

function digits_of :: "nat \<Rightarrow> string" where
  "digits_of n = (if n < 10 then [digit_char n] else digits_of (n div 10) @ [digit_char (n mod 10)])"
  by pat_completeness auto
termination
  by (relation "measure (\<lambda>n. n)") auto

declare digits_of.simps [simp del]

definition str_int :: "int \<Rightarrow> string" where
  "str_int n = (if n < 0 then CHR ''-'' # digits_of (nat (- n)) else digits_of (nat n))"

section \<open>The world outside the scripts\<close>

text \<open>
  The body of an HTTP response: empty, not JSON (with the decoder's message), or JSON.
  A request ends in an exception of the HTTP library raised before any status is known
  (connection refused, timeout; the string is \<^verbatim>\<open>str(e)\<close>), or in a final status code with
  its reason phrase and body.
\<close>

datatype body = Empty | Undecodable string | Decoded json

datatype response = TransportError string | HTTP int string body

text \<open>
  What one attempt to write a file meets: whether \<^verbatim>\<open>os.makedirs\<close> returns, whether
  \<^verbatim>\<open>open(filename, 'w')\<close> returns (the file exists from then on), and whether
  \<^verbatim>\<open>json.dump\<close> then writes all of it.
\<close>

record disk_result =
  mkdir_ok :: bool
  open_ok :: bool
  dump_ok :: bool

text \<open>
  The scripts are deterministic, so the environment is two oracles: the response to the
  \<open>k\<close>-th request sent and the fate of the \<open>k\<close>-th write attempted (both counted from 0,
  over the whole run).
\<close>

record env =
  net :: "nat \<Rightarrow> response"
  disk :: "nat \<Rightarrow> disk_result"

text \<open>
  The state a run changes, with its effects kept as logs: the requests sent (\<open>'q\<close> is the
  pair of query parameters that varies), the seconds of every \<^verbatim>\<open>time.sleep\<close>, the names
  of the files present in the data directory (\<open>'f\<close> is the chunk identifier in the file
  name; an absent directory is the empty list) and the files a write was attempted on.
\<close>

record ('q, 'f) world =
  sent :: "'q list"
  slept :: "int list"
  files :: "'f list"
  writes :: "'f list"

definition send :: "'q \<Rightarrow> ('q, 'f) world \<Rightarrow> ('q, 'f) world" where
  "send q w = w\<lparr>sent := sent w @ [q]\<rparr>"

definition sleep :: "int \<Rightarrow> ('q, 'f) world \<Rightarrow> ('q, 'f) world" where
  "sleep t w = w\<lparr>slept := slept w @ [t]\<rparr>"

definition create_file :: "'f \<Rightarrow> ('q, 'f) world \<Rightarrow> ('q, 'f) world" where
  "create_file f w = (if f \<in> set (files w) then w else w\<lparr>files := files w @ [f]\<rparr>)"

section \<open>The offset-mode fetcher (DataAcqusitionLab/make_requests.py)\<close>

type_synonym offset_world = "(int \<times> int, int) world"

text \<open>
  \<^verbatim>\<open>make_api_request(offset, limit, retry_count=0)\<close>, lines 22-67. The request is logged
  when \<^verbatim>\<open>urlopen\<close> is called. \<^verbatim>\<open>urlopen\<close> raises \<^verbatim>\<open>HTTPError\<close> for every final status
  outside 200-299; a 2xx body that cannot be read as JSON raises inside the \<^verbatim>\<open>try\<close> and
  is caught by \<^verbatim>\<open>except Exception\<close>, like a transport failure (for an empty body the
  decoder's message is the one CPython gives). The result is the pair
  \<^verbatim>\<open>(data, error)\<close> with \<^verbatim>\<open>None\<close> as \<open>None\<close>; a decoded body that is the JSON value
  \<^verbatim>\<open>null\<close> is \<open>Some JNull\<close>, which \<^verbatim>\<open>main\<close> treats as it treats \<^verbatim>\<open>None\<close> (both are falsy).
\<close>

definition decode_error_text :: "body \<Rightarrow> string" where
  "decode_error_text b =
     (case b of Undecodable msg \<Rightarrow> msg | _ \<Rightarrow> ''Expecting value: line 1 column 1 (char 0)'')"

function make_api_request ::
  "(nat \<Rightarrow> response) \<Rightarrow> int \<Rightarrow> int \<Rightarrow> int \<Rightarrow> offset_world
     \<Rightarrow> (json option \<times> string option) \<times> offset_world" where
  "make_api_request nt offset limit retry_count w =
     (let w1 = send (offset, limit) w;
          network_error = (\<lambda>msg.
            let error_msg = ''Network error: '' @ msg in
            if retry_count < MAX_RETRIES
            then make_api_request nt offset limit (retry_count + 1) (sleep 5 w1)
            else ((None, Some error_msg), w1))
      in case nt (length (sent w)) of
           TransportError msg \<Rightarrow> network_error msg
         | HTTP code reason b \<Rightarrow>
             if 200 \<le> code \<and> code < 300 then
               (case b of
                  Decoded data \<Rightarrow> ((Some data, None), w1)
                | _ \<Rightarrow> network_error (decode_error_text b))
             else
               let error_msg = ''HTTP Error '' @ str_int code @ '': '' @ reason in
               if code = 503 then
                 if retry_count < MAX_RETRIES then
                   let wait_time = (retry_count + 1) * 5 in
                   make_api_request nt offset limit (retry_count + 1) (sleep wait_time w1)
                 else ((None, Some (''Max retries exceeded: '' @ error_msg)), w1)
               else if code = 429 then
                 let w2 = sleep 30 w1 in
                 if retry_count < MAX_RETRIES
                 then make_api_request nt offset limit (retry_count + 1) w2
                 else ((None, Some error_msg), w2)
               else ((None, Some error_msg), w1))"
  by pat_completeness auto
termination
  by (relation "measure (\<lambda>(nt, offset, limit, retry_count, w). nat (MAX_RETRIES - retry_count))")
    auto

declare make_api_request.simps [simp del]

text \<open>
  \<^verbatim>\<open>save_to_file(data, file_index)\<close>, lines 69-82. \<^verbatim>\<open>os.makedirs\<close> stands before the
  \<^verbatim>\<open>try\<close>, so its failure leaves the function as an exception; a failure of \<^verbatim>\<open>open\<close> or
  of \<^verbatim>\<open>json.dump\<close> is caught and gives \<^verbatim>\<open>False\<close>.
\<close>

definition save_to_file ::
  "(nat \<Rightarrow> disk_result) \<Rightarrow> json \<Rightarrow> int \<Rightarrow> offset_world \<Rightarrow> exc + (bool \<times> offset_world)" where
  "save_to_file dk data file_index w =
     (let r = dk (length (writes w));
          w1 = w\<lparr>writes := writes w @ [file_index]\<rparr>
      in if \<not> mkdir_ok r then Inl OSError
         else if \<not> open_ok r then Inr (False, w1)
         else if \<not> dump_ok r then Inr (False, create_file file_index w1)
         else Inr (True, create_file file_index w1))"

text \<open>\<^verbatim>\<open>check_existing_files()\<close>, lines 84-96: the indices below 39 whose file exists.\<close>

definition check_existing_files :: "offset_world \<Rightarrow> int list" where
  "check_existing_files w = filter (\<lambda>i. i \<in> set (files w)) (range_py 39)"

text \<open>
  What \<^verbatim>\<open>main\<close> accumulates: the counter \<^verbatim>\<open>successful_requests\<close> and the list
  \<^verbatim>\<open>failed_requests\<close>. The script keeps only the count of the chunks it considers done;
  \<open>completed\<close> is a ghost list that records, at each increment of the counter, which
  chunk it was for.
\<close>

record report =
  successful_requests :: int
  failed_requests :: "(int \<times> string) list"
  completed :: "int list"

definition count_success :: "int \<Rightarrow> report \<Rightarrow> report" where
  "count_success i r =
     r\<lparr>successful_requests := successful_requests r + 1, completed := completed r @ [i]\<rparr>"

definition record_failure :: "int \<Rightarrow> string \<Rightarrow> report \<Rightarrow> report" where
  "record_failure i msg r = r\<lparr>failed_requests := failed_requests r @ [(i, msg)]\<rparr>"

text \<open>
  \<^verbatim>\<open>data and 'results' in data\<close> (line 135) for a \<^verbatim>\<open>data\<close> that is not \<^verbatim>\<open>None\<close>: the
  membership test is reached only when \<^verbatim>\<open>data\<close> is truthy.
\<close>

definition data_and_results :: "json \<Rightarrow> exc + bool" where
  "data_and_results d = (if truthy d then contains_py ''results'' d else Inr False)"

text \<open>\<^verbatim>\<open>len(data['results'])\<close> (line 139).\<close>

definition len_results :: "json \<Rightarrow> exc + nat" where
  "len_results d = (case subscript_py d ''results'' of Inl x \<Rightarrow> Inl x | Inr v \<Rightarrow> len_py v)"

text \<open>\<^verbatim>\<open>error or "Unknown error"\<close> (line 144).\<close>

definition error_or_unknown :: "string option \<Rightarrow> string" where
  "error_or_unknown error =
     (case error of None \<Rightarrow> ''Unknown error'' | Some s \<Rightarrow> if s = [] then ''Unknown error'' else s)"

text \<open>The pause after a chunk that was not skipped, except after the last (lines 151-153).\<close>

definition pause_between :: "int \<Rightarrow> int \<Rightarrow> offset_world \<Rightarrow> offset_world" where
  "pause_between i n w = (if i < n - 1 then sleep DELAY_BETWEEN_REQUESTS w else w)"

text \<open>
  One pass through the body of the loop of \<^verbatim>\<open>main\<close> (lines 122-153) for chunk \<open>i\<close>, with
  \<open>n\<close> the value of \<^verbatim>\<open>num_requests\<close>. A \<^verbatim>\<open>data\<close> that is \<^verbatim>\<open>None\<close> is falsy and takes the
  \<^verbatim>\<open>else\<close> branch. An exception no handler catches ends the run: \<open>Inl\<close>.
\<close>

definition process_chunk ::
  "env \<Rightarrow> int list \<Rightarrow> int \<Rightarrow> int \<Rightarrow> report \<times> offset_world \<Rightarrow> exc + (report \<times> offset_world)" where
  "process_chunk e existing_files n i s =
     (case s of (r, w) \<Rightarrow>
      if i \<in> set existing_files then Inr (count_success i r, w)
      else
        let offset = i * LIMIT + 1 in
        case make_api_request (net e) offset LIMIT 0 w of ((data, error), w1) \<Rightarrow>
        let failed = Inr (record_failure i (error_or_unknown error) r, pause_between i n w1) in
        case data of
          None \<Rightarrow> failed
        | Some d \<Rightarrow>
            (case data_and_results d of
               Inl x \<Rightarrow> Inl x
             | Inr False \<Rightarrow> failed
             | Inr True \<Rightarrow>
                 (case save_to_file (disk e) d i w1 of
                    Inl x \<Rightarrow> Inl x
                  | Inr (False, w2) \<Rightarrow>
                      Inr (record_failure i ''File save error'' r, pause_between i n w2)
                  | Inr (True, w2) \<Rightarrow>
                      (case len_results d of
                         Inl x \<Rightarrow> Inl x
                       | Inr records_count \<Rightarrow>
                           Inr (count_success i r, pause_between i n w2)))))"

fun run_chunks ::
  "env \<Rightarrow> int list \<Rightarrow> int \<Rightarrow> int list \<Rightarrow> report \<times> offset_world
     \<Rightarrow> exc + (report \<times> offset_world)" where
  "run_chunks e existing_files n [] s = Inr s"
| "run_chunks e existing_files n (i # rest) s =
     (case process_chunk e existing_files n i s of
        Inl x \<Rightarrow> Inl x
      | Inr s' \<Rightarrow> run_chunks e existing_files n rest s')"

text \<open>
  \<^verbatim>\<open>main()\<close>, lines 98-154, without its printing: the report at the end of the loop and
  the world then, or the exception that ended the run.
\<close>

definition main :: "env \<Rightarrow> offset_world \<Rightarrow> exc + (report \<times> offset_world)" where
  "main e w =
     (let existing_files = check_existing_files w;
          n = num_requests TOTAL_RECORDS LIMIT
      in run_chunks e existing_files n (range_py n)
           (\<lparr>successful_requests = 0, failed_requests = [], completed = []\<rparr>, w))"

section \<open>The date-mode fetcher (NOAAMonthlySummaries/data/monthly_summaries/fetch_monthly_data.py)\<close>

definition START_YEAR :: int where "START_YEAR = 1938"
definition END_YEAR :: int where "END_YEAR = 2018"
definition CHUNK_SIZE :: int where "CHUNK_SIZE = 10"

text \<open>One entry of the list \<^verbatim>\<open>create_date_ranges\<close> builds (a dict with these five keys).\<close>

record range_info =
  start_year :: int
  end_year :: int
  start_date :: string
  end_date :: string
  filename :: string

text \<open>The entry appended for the window that starts at \<open>current_year\<close> (lines 37-47).\<close>

definition make_range :: "int \<Rightarrow> int \<Rightarrow> int \<Rightarrow> range_info" where
  "make_range last_year years_per_chunk current_year =
     (let window_end = min (current_year + years_per_chunk - 1) last_year in
      \<lparr>start_year = current_year,
       end_year = window_end,
       start_date = str_int current_year @ ''-01-01'',
       end_date = str_int window_end @ ''-12-31'',
       filename = ''FIPS10003_avg_'' @ str_int current_year @ ''_to_'' @ str_int window_end
                    @ ''.json''\<rparr>)"

text \<open>
  The \<^verbatim>\<open>while\<close> loop of \<^verbatim>\<open>create_date_ranges\<close> (lines 36-49), as a function of the constants
  it reads. With a chunk size that is not positive the loop never ends, so the result
  is an option and \<open>None\<close> stands for not returning.
\<close>

partial_function (option) date_ranges_loop ::
  "int \<Rightarrow> int \<Rightarrow> int \<Rightarrow> range_info list \<Rightarrow> range_info list option" where
  "date_ranges_loop last_year years_per_chunk current_year ranges =
     (if current_year \<le> last_year
      then date_ranges_loop last_year years_per_chunk (current_year + years_per_chunk)
             (ranges @ [make_range last_year years_per_chunk current_year])
      else Some ranges)"

definition create_date_ranges_of :: "int \<Rightarrow> int \<Rightarrow> int \<Rightarrow> range_info list option" where
  "create_date_ranges_of first_year last_year years_per_chunk =
     date_ranges_loop last_year years_per_chunk first_year []"

definition create_date_ranges :: "range_info list option" where
  "create_date_ranges = create_date_ranges_of START_YEAR END_YEAR CHUNK_SIZE"

type_synonym date_world = "(string \<times> string, string) world"

text \<open>
  The normalisation of a decoded body (lines 73-86). \<^verbatim>\<open>data.get('results', [])\<close> needs a
  dict; the \<^verbatim>\<open>for\<close> loop needs an iterable (a dict yields its keys, a string its
  characters); \<^verbatim>\<open>item.get\<close> needs every item to be a dict, and a missing field is
  \<^verbatim>\<open>None\<close>. \<^verbatim>\<open>data['results'] = ...\<close> replaces the value of the key where it stands, or adds
  the key at the end.
\<close>

definition get_results :: "json \<Rightarrow> exc + json" where
  "get_results data =
     (case data of
        JObj kvs \<Rightarrow> Inr (case map_of kvs ''results'' of None \<Rightarrow> JArr [] | Some v \<Rightarrow> v)
      | _ \<Rightarrow> Inl AttributeError)"

definition iterate_py :: "json \<Rightarrow> exc + json list" where
  "iterate_py v =
     (case v of
        JArr xs \<Rightarrow> Inr xs
      | JObj kvs \<Rightarrow> Inr (map (\<lambda>kv. JStr (fst kv)) kvs)
      | JStr s \<Rightarrow> Inr (map (\<lambda>c. JStr [c]) s)
      | _ \<Rightarrow> Inl TypeError)"

definition item_get :: "(string \<times> json) list \<Rightarrow> string \<Rightarrow> json" where
  "item_get kvs k = (case map_of kvs k of None \<Rightarrow> JNull | Some v \<Rightarrow> v)"

definition adjust_item :: "json \<Rightarrow> exc + json" where
  "adjust_item item =
     (case item of
        JObj kvs \<Rightarrow>
          Inr (JObj [(''date'', item_get kvs ''date''),
                     (''datatype'', item_get kvs ''datatype''),
                     (''station'', item_get kvs ''station''),
                     (''attributes'', item_get kvs ''attributes''),
                     (''value'', item_get kvs ''value'')])
      | _ \<Rightarrow> Inl AttributeError)"

fun adjust_items :: "json list \<Rightarrow> json list \<Rightarrow> exc + json list" where
  "adjust_items [] adjusted_results = Inr adjusted_results"
| "adjust_items (item # rest) adjusted_results =
     (case adjust_item item of
        Inl x \<Rightarrow> Inl x
      | Inr adjusted_item \<Rightarrow> adjust_items rest (adjusted_results @ [adjusted_item]))"

fun set_key :: "string \<Rightarrow> json \<Rightarrow> (string \<times> json) list \<Rightarrow> (string \<times> json) list" where
  "set_key k v [] = [(k, v)]"
| "set_key k v (kv # kvs) = (if fst kv = k then (k, v) # kvs else kv # set_key k v kvs)"

definition adjust_data :: "json \<Rightarrow> exc + json" where
  "adjust_data data =
     (case get_results data of
        Inl x \<Rightarrow> Inl x
      | Inr v \<Rightarrow>
          (case iterate_py v of
             Inl x \<Rightarrow> Inl x
           | Inr items \<Rightarrow>
               (case adjust_items items [] of
                  Inl x \<Rightarrow> Inl x
                | Inr adjusted_results \<Rightarrow>
                    (case data of
                       JObj kvs \<Rightarrow> Inr (JObj (set_key ''results'' (JArr adjusted_results) kvs))
                     | _ \<Rightarrow> Inl TypeError))))"

text \<open>
  \<^verbatim>\<open>str(e)\<close> of the \<^verbatim>\<open>HTTPError\<close> that \<^verbatim>\<open>raise_for_status\<close> raises, without the
  \<^verbatim>\<open>for url: ...\<close> that follows it.
\<close>

definition status_error_text :: "int \<Rightarrow> string \<Rightarrow> string" where
  "status_error_text code reason =
     str_int code @ (if code < 500 then '' Client Error: '' else '' Server Error: '') @ reason"

text \<open>
  \<^verbatim>\<open>make_api_request(start_date, end_date)\<close>, lines 53-95. \<^verbatim>\<open>requests.get\<close> raises a
  \<^verbatim>\<open>RequestException\<close> when no response arrives; \<^verbatim>\<open>raise_for_status\<close> raises one for a
  status from 400 to 599 and for no other. The handlers catch \<^verbatim>\<open>RequestException\<close> and
  \<^verbatim>\<open>JSONDecodeError\<close> only, so an exception of the normalisation leaves the function:
  \<open>Inl\<close>. A body that is not JSON is caught by one of the two handlers (which one
  depends on the version of \<^verbatim>\<open>requests\<close>; the text of the second is used here). There is
  no retry and no sleep.
\<close>

definition make_api_request_monthly ::
  "(nat \<Rightarrow> response) \<Rightarrow> string \<Rightarrow> string \<Rightarrow> date_world
     \<Rightarrow> exc + ((json option \<times> string option) \<times> date_world)" where
  "make_api_request_monthly nt start_d end_d w =
     (let w1 = send (start_d, end_d) w in
      case nt (length (sent w)) of
        TransportError msg \<Rightarrow> Inr ((None, Some (''Request error: '' @ msg)), w1)
      | HTTP code reason b \<Rightarrow>
          if 400 \<le> code \<and> code < 600
          then Inr ((None, Some (''Request error: '' @ status_error_text code reason)), w1)
          else
            (case b of
               Empty \<Rightarrow> Inr ((None, Some ''Empty response''), w1)
             | Undecodable msg \<Rightarrow> Inr ((None, Some (''JSON decode error: '' @ msg)), w1)
             | Decoded data \<Rightarrow>
                 (case adjust_data data of
                    Inl x \<Rightarrow> Inl x
                  | Inr adjusted \<Rightarrow> Inr ((Some adjusted, None), w1))))"

text \<open>
  The record count \<^verbatim>\<open>save_data\<close> prints (line 107):
  \<^verbatim>\<open>len(data.get('results', [])) if data and 'results' in data else 0\<close>.
\<close>

definition record_count :: "json \<Rightarrow> exc + nat" where
  "record_count data =
     (if truthy data then
        (case contains_py ''results'' data of
           Inl x \<Rightarrow> Inl x
         | Inr False \<Rightarrow> Inr 0
         | Inr True \<Rightarrow> (case get_results data of Inl x \<Rightarrow> Inl x | Inr v \<Rightarrow> len_py v))
      else Inr 0)"

text \<open>
  \<^verbatim>\<open>save_data(data, filename)\<close>, lines 97-113. Everything is inside the \<^verbatim>\<open>try\<close>: a failure
  of \<^verbatim>\<open>open\<close>, of \<^verbatim>\<open>json.dump\<close> or of the record count gives \<^verbatim>\<open>False\<close>; the directory is
  not created here.
\<close>

definition save_data ::
  "(nat \<Rightarrow> disk_result) \<Rightarrow> json \<Rightarrow> string \<Rightarrow> date_world \<Rightarrow> bool \<times> date_world" where
  "save_data dk data name w =
     (let r = dk (length (writes w));
          w1 = w\<lparr>writes := writes w @ [name]\<rparr>
      in if \<not> open_ok r then (False, w1)
         else if \<not> dump_ok r then (False, create_file name w1)
         else (case record_count data of
                 Inl x \<Rightarrow> (False, create_file name w1)
               | Inr n \<Rightarrow> (True, create_file name w1)))"

text \<open>\<^verbatim>\<open>check_existing_files()\<close>, lines 115-125: the directory listing, filtered by name.\<close>

definition check_existing_files_monthly :: "date_world \<Rightarrow> string list" where
  "check_existing_files_monthly w =
     filter (\<lambda>name. startswith name ''FIPS10003_avg_'' \<and> endswith name ''.json'') (files w)"

text \<open>
  What \<^verbatim>\<open>main\<close> accumulates: the counter \<^verbatim>\<open>successful\<close> and the list \<^verbatim>\<open>failed\<close> of file
  names (the error of a failed chunk is printed, not kept). \<open>done_files\<close> is a ghost list
  that records, at each increment of the counter, which file it was for.
\<close>

record report_monthly =
  successful :: int
  failed :: "string list"
  done_files :: "string list"

definition count_success_monthly :: "string \<Rightarrow> report_monthly \<Rightarrow> report_monthly" where
  "count_success_monthly name r =
     r\<lparr>successful := successful r + 1, done_files := done_files r @ [name]\<rparr>"

definition record_failure_monthly :: "string \<Rightarrow> report_monthly \<Rightarrow> report_monthly" where
  "record_failure_monthly name r = r\<lparr>failed := failed r @ [name]\<rparr>"

definition pause_monthly :: "int \<Rightarrow> int \<Rightarrow> date_world \<Rightarrow> date_world" where
  "pause_monthly i n w = (if i < n then sleep 2 w else w)"

text \<open>
  One pass through the body of the loop of \<^verbatim>\<open>main\<close> (lines 155-181) for the \<open>i\<close>-th range
  (counted from 1, as \<^verbatim>\<open>enumerate(date_ranges, 1)\<close> does), with \<open>n\<close> the number of ranges.
\<close>

definition process_range ::
  "env \<Rightarrow> string list \<Rightarrow> int \<Rightarrow> int \<times> range_info \<Rightarrow> report_monthly \<times> date_world
     \<Rightarrow> exc + (report_monthly \<times> date_world)" where
  "process_range e existing_files n ir s =
     (case s of (r, w) \<Rightarrow>
      case ir of (i, info) \<Rightarrow>
      if filename info \<in> set existing_files
      then Inr (count_success_monthly (filename info) r, w)
      else
        case make_api_request_monthly (net e) (start_date info) (end_date info) w of
          Inl x \<Rightarrow> Inl x
        | Inr ((data, error), w1) \<Rightarrow>
            let name = filename info;
                failed_fetch = Inr (record_failure_monthly name r, pause_monthly i n w1)
            in case data of
                 None \<Rightarrow> failed_fetch
               | Some d \<Rightarrow>
                   if truthy d then
                     (case save_data (disk e) d name w1 of
                        (True, w2) \<Rightarrow> Inr (count_success_monthly name r, pause_monthly i n w2)
                      | (False, w2) \<Rightarrow> Inr (record_failure_monthly name r, pause_monthly i n w2))
                   else failed_fetch)"

fun run_ranges ::
  "env \<Rightarrow> string list \<Rightarrow> int \<Rightarrow> (int \<times> range_info) list \<Rightarrow> report_monthly \<times> date_world
     \<Rightarrow> exc + (report_monthly \<times> date_world)" where
  "run_ranges e existing_files n [] s = Inr s"
| "run_ranges e existing_files n (ir # rest) s =
     (case process_range e existing_files n ir s of
        Inl x \<Rightarrow> Inl x
      | Inr s' \<Rightarrow> run_ranges e existing_files n rest s')"

text \<open>\<^verbatim>\<open>enumerate(xs, 1)\<close>.\<close>

definition enumerate1 :: "'a list \<Rightarrow> (int \<times> 'a) list" where
  "enumerate1 xs = zip (map int [1..<Suc (length xs)]) xs"

text \<open>
  \<^verbatim>\<open>main()\<close>, lines 127-181, without its printing. The outer option is \<open>None\<close> when
  \<^verbatim>\<open>create_date_ranges\<close> does not return. \<^verbatim>\<open>os.makedirs(".", exist_ok=True)\<close> (line 138)
  has nothing to create.
\<close>

definition main_monthly_of ::
  "range_info list option \<Rightarrow> env \<Rightarrow> date_world \<Rightarrow> (exc + (report_monthly \<times> date_world)) option" where
  "main_monthly_of plan e w =
     (let existing_files = check_existing_files_monthly w in
      case plan of
        None \<Rightarrow> None
      | Some date_ranges \<Rightarrow>
          Some (run_ranges e existing_files (int (length date_ranges)) (enumerate1 date_ranges)
                  (\<lparr>successful = 0, failed = [], done_files = []\<rparr>, w)))"

definition main_monthly :: "env \<Rightarrow> date_world \<Rightarrow> (exc + (report_monthly \<times> date_world)) option" where
  "main_monthly = main_monthly_of create_date_ranges"

section \<open>Notions of the specification and devices of the proofs\<close>

text \<open>
  The number of passes the loop of \<^verbatim>\<open>create_date_ranges\<close> makes from \<open>current_year\<close>
  on, for a positive chunk size (a quantity of the proofs, not of the script).
\<close>

definition window_count :: "int \<Rightarrow> int \<Rightarrow> int \<Rightarrow> nat" where
  "window_count last_year years_per_chunk current_year =
     (if current_year \<le> last_year then nat ((last_year - current_year) div years_per_chunk + 1) else 0)"

text \<open>
  The transient failures, in the specification's words: a transport error, HTTP 503 or
  HTTP 429.
\<close>

definition transient :: "response \<Rightarrow> bool" where
  "transient r = (case r of TransportError msg \<Rightarrow> True | HTTP code reason b \<Rightarrow> code = 503 \<or> code = 429)"

text \<open>
  One attempt of \<^const>\<open>make_api_request\<close>, cut out of its body: either the result the call
  returns (\<open>Inl\<close>) or the world in which it calls itself with \<open>retry_count + 1\<close> (\<open>Inr\<close>).
  \<open>make_api_request_unfold\<close> below proves that the function is the iteration of this step.
\<close>

definition attempt ::
  "(nat \<Rightarrow> response) \<Rightarrow> int \<Rightarrow> int \<Rightarrow> int \<Rightarrow> offset_world
     \<Rightarrow> ((json option \<times> string option) \<times> offset_world) + offset_world" where
  "attempt nt offset limit retry_count w =
     (let w1 = send (offset, limit) w;
          retry_or = (\<lambda>wait res. if retry_count < MAX_RETRIES then Inr (sleep wait w1) else Inl res)
      in case nt (length (sent w)) of
           TransportError msg \<Rightarrow> retry_or 5 ((None, Some (''Network error: '' @ msg)), w1)
         | HTTP code reason b \<Rightarrow>
             if 200 \<le> code \<and> code < 300 then
               (case b of
                  Decoded data \<Rightarrow> Inl ((Some data, None), w1)
                | _ \<Rightarrow> retry_or 5 ((None, Some (''Network error: '' @ decode_error_text b)), w1))
             else if code = 503 then
               retry_or ((retry_count + 1) * 5)
                 ((None, Some (''Max retries exceeded: '' @ ''HTTP Error '' @ str_int code @ '': '' @ reason)), w1)
             else if code = 429 then
               retry_or 30 ((None, Some (''HTTP Error '' @ str_int code @ '': '' @ reason)), sleep 30 w1)
             else Inl ((None, Some (''HTTP Error '' @ str_int code @ '': '' @ reason)), w1))"

subsection \<open>Concrete environments and directories\<close>

text \<open>A world in which nothing has been sent yet and the data directory is empty.\<close>

definition fresh_world :: "('q, 'f) world" where
  "fresh_world = \<lparr>sent = [], slept = [], files = [], writes = []\<rparr>"

text \<open>A disk on which every write succeeds.\<close>

definition good_disk :: "nat \<Rightarrow> disk_result" where
  "good_disk k = \<lparr>mkdir_ok = True, open_ok = True, dump_ok = True\<rparr>"

text \<open>A server that answers every request with 503, and one that answers every request
  with 404.\<close>

definition always_503 :: "nat \<Rightarrow> response" where
  "always_503 k = HTTP 503 ''Service Unavailable'' Empty"

definition always_404 :: "nat \<Rightarrow> response" where
  "always_404 k = HTTP 404 ''Not Found'' Empty"

text \<open>An environment whose server answers every request with 404; writes succeed.\<close>

definition env_404 :: env where
  "env_404 = \<lparr>net = always_404, disk = good_disk\<rparr>"

text \<open>A data directory that holds the files of all chunks but chunk 0.\<close>

definition first_missing :: offset_world where
  "first_missing = fresh_world\<lparr>files := map int [1..<39]\<rparr>"

text \<open>
  The list \<^verbatim>\<open>create_date_ranges()\<close> returns with the constants of the script, written out
  (\<open>create_date_ranges_reference\<close> below proves that it is).
\<close>

definition reference_ranges :: "range_info list" where
  "reference_ranges = map (make_range 2018 10) [1938, 1948, 1958, 1968, 1978, 1988, 1998, 2008, 2018]"

text \<open>A data directory that holds the files of all date ranges but the first.\<close>

definition first_missing_monthly :: date_world where
  "first_missing_monthly = fresh_world\<lparr>files := tl (map filename reference_ranges)\<rparr>"

text \<open>
  A server that answers every request with 200 and the body \<^verbatim>\<open>{"results": []}\<close>, and the
  environment with this server and a disk on which every write succeeds.
\<close>

definition always_ok :: "nat \<Rightarrow> response" where
  "always_ok k = HTTP 200 ''OK'' (Decoded (JObj [(''results'', JArr [])]))"

definition env_ok :: env where
  "env_ok = \<lparr>net = always_ok, disk = good_disk\<rparr>"

text \<open>
  A server that answers every request with 200 and the body \<^verbatim>\<open>{}\<close> (what the API sends
  when a query matches no record), and the environment with this server and a disk on
  which every write succeeds.
\<close>

definition always_empty_object :: "nat \<Rightarrow> response" where
  "always_empty_object k = HTTP 200 ''OK'' (Decoded (JObj []))"

definition env_empty_object :: env where
  "env_empty_object = \<lparr>net = always_empty_object, disk = good_disk\<rparr>"

text \<open>The report with which both \<^verbatim>\<open>main\<close> functions start.\<close>

definition empty_report :: report where
  "empty_report = \<lparr>successful_requests = 0, failed_requests = [], completed = []\<rparr>"

definition empty_report_monthly :: report_monthly where
  "empty_report_monthly = \<lparr>successful = 0, failed = [], done_files = []\<rparr>"

text \<open>
  A disk on which the data directory cannot be created (the working directory is
  read-only, or a regular file named \<^verbatim>\<open>data\<close> is in the way), with a server that answers
  every request well; and a server that answers every request with 200 and the JSON body
  \<^verbatim>\<open>[]\<close>.
\<close>

definition no_directory_disk :: "nat \<Rightarrow> disk_result" where
  "no_directory_disk k = \<lparr>mkdir_ok = False, open_ok = True, dump_ok = True\<rparr>"

definition env_no_directory :: env where
  "env_no_directory = \<lparr>net = always_ok, disk = no_directory_disk\<rparr>"

definition always_list :: "nat \<Rightarrow> response" where
  "always_list k = HTTP 200 ''OK'' (Decoded (JArr []))"

definition env_list :: env where
  "env_list = \<lparr>net = always_list, disk = good_disk\<rparr>"

subsection \<open>What becomes of one chunk\<close>

text \<open>
  The run controller of the specification (section 4.4), chunk by chunk: a chunk whose
  identifier is in the store is skipped and the executor is not invoked; otherwise the
  executor is invoked, a failed fetch is recorded with the executor's error detail, and
  a fetched payload is handed to the storage sink, where a failed write is a failure of
  its own kind. In offset mode a payload without usable \<open>results\<close> is a failure too, and
  the record count taken after the write can still end the run. The results of
  \<^const>\<open>main\<close> are compared with this below.
\<close>

datatype disposition = Skipped | Persisted | Failed string

definition chunk_disposition :: "env \<Rightarrow> int list \<Rightarrow> int \<Rightarrow> offset_world \<Rightarrow> exc + disposition" where
  "chunk_disposition e existing_files i w =
     (if i \<in> set existing_files then Inr Skipped
      else
        case make_api_request (net e) (chunk_offset LIMIT i) LIMIT 0 w of
          ((None, Some err), w1) \<Rightarrow> Inr (Failed err)
        | ((None, None), w1) \<Rightarrow> Inr (Failed ''Unknown error'')
        | ((Some d, error), w1) \<Rightarrow>
            (case data_and_results d of
               Inl x \<Rightarrow> Inl x
             | Inr False \<Rightarrow> Inr (Failed ''Unknown error'')
             | Inr True \<Rightarrow>
                 (case save_to_file (disk e) d i w1 of
                    Inl x \<Rightarrow> Inl x
                  | Inr (False, w2) \<Rightarrow> Inr (Failed ''File save error'')
                  | Inr (True, w2) \<Rightarrow>
                      (case len_results d of Inl x \<Rightarrow> Inl x | Inr k \<Rightarrow> Inr Persisted))))"

text \<open>
  The report and the world of the offset-mode \<^verbatim>\<open>main\<close> when its loop reaches chunk \<open>i\<close>:
  the chunks \<open>0, ..., i - 1\<close> have been processed.
\<close>

definition state_before :: "env \<Rightarrow> offset_world \<Rightarrow> int \<Rightarrow> exc + (report \<times> offset_world)" where
  "state_before e w i =
     run_chunks e (check_existing_files w) (num_requests TOTAL_RECORDS LIMIT) (range_py i)
       (empty_report, w)"

text \<open>
  The same for a date range. The date-mode \<^verbatim>\<open>main\<close> has no error detail to record: its
  failed list holds file names.
\<close>

datatype disposition_monthly = Skipped_file | Persisted_file | Failed_file

definition range_disposition ::
  "env \<Rightarrow> string list \<Rightarrow> range_info \<Rightarrow> date_world \<Rightarrow> exc + disposition_monthly" where
  "range_disposition e existing_files info w =
     (if filename info \<in> set existing_files then Inr Skipped_file
      else
        case make_api_request_monthly (net e) (start_date info) (end_date info) w of
          Inl x \<Rightarrow> Inl x
        | Inr ((None, error), w1) \<Rightarrow> Inr Failed_file
        | Inr ((Some d, error), w1) \<Rightarrow>
            if truthy d \<and> fst (save_data (disk e) d (filename info) w1)
            then Inr Persisted_file else Inr Failed_file)"

text \<open>
  The report and the world of the date-mode \<^verbatim>\<open>main\<close> when its loop reaches the range
  number \<open>k\<close> (counted from 0) of the reference plan.
\<close>

definition state_before_monthly ::
  "env \<Rightarrow> date_world \<Rightarrow> nat \<Rightarrow> exc + (report_monthly \<times> date_world)" where
  "state_before_monthly e w k =
     run_ranges e (check_existing_files_monthly w) (int (length reference_ranges))
       (take k (enumerate1 reference_ranges)) (empty_report_monthly, w)"

text \<open>
  Two environments whose server cannot be reached, for different reasons (the string is
  what \<^verbatim>\<open>str(e)\<close> gives); writes succeed.
\<close>

definition always_timeout :: "nat \<Rightarrow> response" where
  "always_timeout k = TransportError ''timed out''"

definition always_refused :: "nat \<Rightarrow> response" where
  "always_refused k = TransportError ''connection refused''"

definition env_timeout :: env where
  "env_timeout = \<lparr>net = always_timeout, disk = good_disk\<rparr>"

definition env_refused :: env where
  "env_refused = \<lparr>net = always_refused, disk = good_disk\<rparr>"

section \<open>Chunk planning: properties\<close>

lemma num_requests_bounds:
  assumes "0 < limit"
  shows "(num_requests total_units limit - 1) * limit < total_units"
    and "total_units \<le> num_requests total_units limit * limit"
proof -
  let ?a = "total_units + limit - 1"
  have e: "?a = ?a div limit * limit + ?a mod limit" by simp
  have m: "0 \<le> ?a mod limit" "?a mod limit < limit" using assms by simp_all
  have "(?a div limit - 1) * limit = ?a div limit * limit - limit"
    by (simp add: algebra_simps)
  with e m show "(num_requests total_units limit - 1) * limit < total_units"
    unfolding num_requests_def by linarith
  from e m show "total_units \<le> num_requests total_units limit * limit"
    unfolding num_requests_def by linarith
qed

lemma num_requests_pos:
  assumes "0 < limit" "0 < total_units"
  shows "0 < num_requests total_units limit"
proof (rule ccontr)
  assume "\<not> 0 < num_requests total_units limit"
  then have "num_requests total_units limit * limit \<le> 0"
    using assms(1) by (simp add: mult_le_0_iff)
  with num_requests_bounds(2)[OF assms(1), of total_units] assms(2) show False by linarith
qed

lemma num_requests_ceiling:
  assumes "0 < limit"
  shows "num_requests total_units limit = \<lceil>real_of_int total_units / real_of_int limit\<rceil>"
proof -
  let ?n = "num_requests total_units limit"
  have l: "0 < real_of_int limit" using assms by simp
  have "real_of_int ((?n - 1) * limit) < real_of_int total_units"
    using num_requests_bounds(1)[OF assms, of total_units] by (simp only: of_int_less_iff)
  then have lo: "real_of_int ?n - 1 < real_of_int total_units / real_of_int limit"
    using l by (simp add: pos_less_divide_eq)
  have "real_of_int total_units \<le> real_of_int (?n * limit)"
    using num_requests_bounds(2)[OF assms, of total_units] by (simp only: of_int_le_iff)
  then have hi: "real_of_int total_units / real_of_int limit \<le> real_of_int ?n"
    using l by (simp add: pos_divide_le_eq)
  from lo hi show ?thesis by (intro ceiling_unique[symmetric]) simp_all
qed

lemma length_planned_ranges:
  "length (planned_ranges total_units limit) = nat (num_requests total_units limit)"
  by (simp add: planned_ranges_def range_py_def)

lemma nth_planned_ranges:
  assumes "i < nat (num_requests total_units limit)"
  shows "planned_ranges total_units limit ! i =
           (int i * limit + 1, min ((int i + 1) * limit) total_units)"
  using assms
  by (simp add: planned_ranges_def range_py_def chunk_offset_def chunk_last_def algebra_simps)

text \<open>Every record number of \<open>[1, total_units]\<close> lies in the chunk \<open>(k - 1) div limit\<close>, and in no other.\<close>

lemma chunk_of_record:
  assumes "0 < limit" "1 \<le> k" "k \<le> total_units"
  shows "0 \<le> (k - 1) div limit" "(k - 1) div limit < num_requests total_units limit"
    "chunk_offset limit ((k - 1) div limit) \<le> k"
    "k \<le> chunk_last total_units limit ((k - 1) div limit)"
proof -
  let ?i = "(k - 1) div limit"
  have e: "k - 1 = ?i * limit + (k - 1) mod limit" by simp
  have m: "0 \<le> (k - 1) mod limit" "(k - 1) mod limit < limit" using assms(1) by simp_all
  show "0 \<le> ?i" using assms by (simp add: pos_imp_zdiv_nonneg_iff)
  show "chunk_offset limit ?i \<le> k" unfolding chunk_offset_def using e m by linarith
  have "k \<le> ?i * limit + 1 + limit - 1" using e m by linarith
  then show "k \<le> chunk_last total_units limit ?i"
    unfolding chunk_last_def chunk_offset_def using assms(3) by simp
  have "?i * limit < num_requests total_units limit * limit"
    using e m num_requests_bounds(2)[OF assms(1), of total_units] assms(3) by linarith
  then show "?i < num_requests total_units limit"
    using assms(1) by (simp add: mult_less_cancel_right)
qed

lemma chunk_unique:
  assumes "0 < limit" "chunk_offset limit i \<le> k" "k \<le> chunk_last total_units limit i"
  shows "i = (k - 1) div limit"
proof -
  have lo: "0 \<le> k - 1 - i * limit" using assms(2) by (simp add: chunk_offset_def)
  have hi: "k - 1 - i * limit < limit"
    using assms(3) by (simp add: chunk_last_def chunk_offset_def algebra_simps)
  have "k - 1 = limit * i + (k - 1 - i * limit)" by (simp add: algebra_simps)
  from int_div_pos_eq[OF this lo hi] show ?thesis by simp
qed

lemma planned_ranges_within:
  assumes "0 < limit" "i < nat (num_requests total_units limit)"
  shows "1 \<le> fst (planned_ranges total_units limit ! i)"
    "fst (planned_ranges total_units limit ! i) \<le> snd (planned_ranges total_units limit ! i)"
    "snd (planned_ranges total_units limit ! i) \<le> total_units"
proof -
  have "int i \<le> num_requests total_units limit - 1" using assms(2) by linarith
  then have "int i * limit \<le> (num_requests total_units limit - 1) * limit"
    using assms(1) by (simp add: mult_right_mono)
  with num_requests_bounds(1)[OF assms(1), of total_units]
  have lt: "int i * limit < total_units" by linarith
  have "0 \<le> int i * limit" using assms(1) by simp
  then show "1 \<le> fst (planned_ranges total_units limit ! i)"
    by (simp add: nth_planned_ranges[OF assms(2)])
  show "fst (planned_ranges total_units limit ! i) \<le> snd (planned_ranges total_units limit ! i)"
    using lt assms(1) by (simp add: nth_planned_ranges[OF assms(2)] algebra_simps)
  show "snd (planned_ranges total_units limit ! i) \<le> total_units"
    by (simp add: nth_planned_ranges[OF assms(2)])
qed

lemma planned_ranges_cover:
  assumes "0 < limit" "1 \<le> k" "k \<le> total_units"
  shows "\<exists>!i. i < length (planned_ranges total_units limit)
            \<and> fst (planned_ranges total_units limit ! i) \<le> k
            \<and> k \<le> snd (planned_ranges total_units limit ! i)"
proof -
  let ?n = "nat (num_requests total_units limit)"
  let ?j = "nat ((k - 1) div limit)"
  note c = chunk_of_record[OF assms]
  have fs: "fst (planned_ranges total_units limit ! i) = chunk_offset limit (int i)"
    "snd (planned_ranges total_units limit ! i) = chunk_last total_units limit (int i)"
    if "i < ?n" for i
    using that by (simp_all add: planned_ranges_def range_py_def)
  have j: "?j < ?n" using c(1,2) by linarith
  have ij: "int ?j = (k - 1) div limit" using c(1) by simp
  show ?thesis
  proof (rule ex1I[of _ ?j])
    show "?j < length (planned_ranges total_units limit)
            \<and> fst (planned_ranges total_units limit ! ?j) \<le> k
            \<and> k \<le> snd (planned_ranges total_units limit ! ?j)"
      using j c(3,4) unfolding fs[OF j] ij length_planned_ranges by blast
  next
    fix i
    assume a: "i < length (planned_ranges total_units limit)
            \<and> fst (planned_ranges total_units limit ! i) \<le> k
            \<and> k \<le> snd (planned_ranges total_units limit ! i)"
    then have i: "i < ?n" by (simp add: length_planned_ranges)
    from a have "int i = (k - 1) div limit"
      using chunk_unique[OF assms(1), of "int i" k total_units] by (simp add: fs[OF i])
    then show "i = ?j" by simp
  qed
qed

lemma reference_plan:
  "length (planned_ranges TOTAL_RECORDS LIMIT) = 39"
  "planned_ranges TOTAL_RECORDS LIMIT ! 0 = (1, 1000)"
  "planned_ranges TOTAL_RECORDS LIMIT ! 38 = (38001, 38859)"
proof -
  have n: "num_requests TOTAL_RECORDS LIMIT = 39"
    by (simp add: num_requests_def TOTAL_RECORDS_def LIMIT_def)
  show "length (planned_ranges TOTAL_RECORDS LIMIT) = 39"
    by (simp add: length_planned_ranges n)
  have "0 < nat (num_requests TOTAL_RECORDS LIMIT)" by (simp add: n)
  from nth_planned_ranges[OF this] show "planned_ranges TOTAL_RECORDS LIMIT ! 0 = (1, 1000)"
    by (simp add: TOTAL_RECORDS_def LIMIT_def)
  have "38 < nat (num_requests TOTAL_RECORDS LIMIT)" by (simp add: n)
  from nth_planned_ranges[OF this]
  show "planned_ranges TOTAL_RECORDS LIMIT ! 38 = (38001, 38859)"
    by (simp add: TOTAL_RECORDS_def LIMIT_def)
qed

text \<open>
  Claim C1. For positive \<open>total_units\<close> and \<open>chunk_size\<close> the offset-mode loop plans
  exactly \<open>\<lceil>total_units / chunk_size\<rceil>\<close> chunks; chunk \<open>i\<close> (counted from 0) covers the
  records \<open>i * chunk_size + 1\<close> to \<open>min ((i + 1) * chunk_size) total_units\<close> and is not
  empty; every record number of \<open>[1, total_units]\<close> lies in exactly one chunk (no gap, no
  overlap) and no chunk reaches outside \<open>[1, total_units]\<close>. With the constants of the
  module (38859 records, 1000 per request) there are 39 chunks, chunk 0 covers 1-1000
  and chunk 38 covers 38001-38859.
\<close>

theorem offset_plan_partition:
  assumes "0 < total_units" "0 < chunk_size"
  shows "num_requests total_units chunk_size
           = \<lceil>real_of_int total_units / real_of_int chunk_size\<rceil>
    \<and> int (length (planned_ranges total_units chunk_size)) = num_requests total_units chunk_size
    \<and> (\<forall>i < length (planned_ranges total_units chunk_size).
          planned_ranges total_units chunk_size ! i
            = (int i * chunk_size + 1, min ((int i + 1) * chunk_size) total_units)
          \<and> fst (planned_ranges total_units chunk_size ! i)
              \<le> snd (planned_ranges total_units chunk_size ! i))
    \<and> (\<forall>k. 1 \<le> k \<and> k \<le> total_units \<longrightarrow>
          (\<exists>!i. i < length (planned_ranges total_units chunk_size)
             \<and> fst (planned_ranges total_units chunk_size ! i) \<le> k
             \<and> k \<le> snd (planned_ranges total_units chunk_size ! i)))
    \<and> (\<forall>i < length (planned_ranges total_units chunk_size). \<forall>k.
          fst (planned_ranges total_units chunk_size ! i) \<le> k
            \<and> k \<le> snd (planned_ranges total_units chunk_size ! i)
          \<longrightarrow> 1 \<le> k \<and> k \<le> total_units)
    \<and> length (planned_ranges TOTAL_RECORDS LIMIT) = 39
    \<and> planned_ranges TOTAL_RECORDS LIMIT ! 0 = (1, 1000)
    \<and> planned_ranges TOTAL_RECORDS LIMIT ! 38 = (38001, 38859)"
proof -
  let ?P = "planned_ranges total_units chunk_size"
  have c1: "num_requests total_units chunk_size
           = \<lceil>real_of_int total_units / real_of_int chunk_size\<rceil>"
    by (rule num_requests_ceiling[OF assms(2)])
  have c2: "int (length ?P) = num_requests total_units chunk_size"
    using num_requests_pos[OF assms(2,1)] by (simp add: length_planned_ranges)
  have c3: "\<forall>i < length ?P.
          ?P ! i = (int i * chunk_size + 1, min ((int i + 1) * chunk_size) total_units)
          \<and> fst (?P ! i) \<le> snd (?P ! i)"
    using nth_planned_ranges planned_ranges_within(2)[OF assms(2)]
    by (simp add: length_planned_ranges)
  have c4: "\<forall>k. 1 \<le> k \<and> k \<le> total_units \<longrightarrow>
          (\<exists>!i. i < length ?P \<and> fst (?P ! i) \<le> k \<and> k \<le> snd (?P ! i))"
    using planned_ranges_cover[OF assms(2)] by blast
  have c5: "\<forall>i < length ?P. \<forall>k. fst (?P ! i) \<le> k \<and> k \<le> snd (?P ! i)
          \<longrightarrow> 1 \<le> k \<and> k \<le> total_units"
  proof (intro allI impI)
    fix i k assume i: "i < length ?P" and k: "fst (?P ! i) \<le> k \<and> k \<le> snd (?P ! i)"
    from i have i': "i < nat (num_requests total_units chunk_size)"
      by (simp add: length_planned_ranges)
    from planned_ranges_within(1,3)[OF assms(2) i'] k
    show "1 \<le> k \<and> k \<le> total_units" by linarith
  qed
  from c1 c2 c3 c4 c5 reference_plan show ?thesis by blast
qed

theorem offset_plan_partition_witness:
  "num_requests 2500 1000 = \<lceil>real_of_int 2500 / real_of_int 1000\<rceil>
   \<and> int (length (planned_ranges 2500 1000)) = num_requests 2500 1000
   \<and> num_requests 2500 1000 = 3
   \<and> (\<exists>!i. i < length (planned_ranges 2500 1000)
          \<and> fst (planned_ranges 2500 1000 ! i) \<le> 2001
          \<and> 2001 \<le> snd (planned_ranges 2500 1000 ! i))"
proof -
  have h: "(0::int) < 2500" "(0::int) < 1000" by simp_all
  have n: "num_requests 2500 1000 = 3" by (simp add: num_requests_def)
  have k: "(1::int) \<le> 2001 \<and> (2001::int) \<le> 2500" by simp
  from offset_plan_partition[OF h] k n show ?thesis by blast
qed

section \<open>Date-mode chunk planning: properties\<close>

lemma window_count_step:
  assumes "0 < c" "cur \<le> e"
  shows "window_count e c cur = Suc (window_count e c (cur + c))"
proof (cases "cur + c \<le> e")
  case True
  have "(e - cur) div c = (e - (cur + c)) div c + 1"
    using assms(1) div_add_self2[of c "e - (cur + c)"] by (simp add: algebra_simps)
  moreover have "0 \<le> (e - (cur + c)) div c"
    using True assms(1) by (simp add: pos_imp_zdiv_nonneg_iff)
  ultimately show ?thesis using True assms(2) by (simp add: window_count_def)
next
  case False
  then have "(e - cur) div c = 0" using assms by (simp add: div_pos_pos_trivial)
  then show ?thesis using False assms(2) by (simp add: window_count_def)
qed

lemma date_ranges_loop_eq:
  assumes "0 < c"
  shows "date_ranges_loop e c cur acc =
           Some (acc @ map (\<lambda>i. make_range e c (cur + int i * c)) [0..<window_count e c cur])"
proof (induction "nat (e - cur + 1)" arbitrary: cur acc rule: less_induct)
  case less
  show ?case
  proof (cases "cur \<le> e")
    case False
    then show ?thesis
      by (subst date_ranges_loop.simps) (simp add: window_count_def)
  next
    case True
    have m: "nat (e - (cur + c) + 1) < nat (e - cur + 1)" using True assms by linarith
    have "date_ranges_loop e c cur acc
            = date_ranges_loop e c (cur + c) (acc @ [make_range e c cur])"
      using True by (subst date_ranges_loop.simps) simp
    also have "\<dots> = Some ((acc @ [make_range e c cur])
                 @ map (\<lambda>i. make_range e c (cur + c + int i * c)) [0..<window_count e c (cur + c)])"
      by (rule less[OF m])
    also have "\<dots> = Some (acc @ map (\<lambda>i. make_range e c (cur + int i * c)) [0..<window_count e c cur])"
      unfolding window_count_step[OF assms True]
      by (simp add: map_upt_Suc algebra_simps del: upt_Suc)
    finally show ?thesis .
  qed
qed

lemma create_date_ranges_of_eq:
  assumes "0 < c"
  shows "create_date_ranges_of s e c
           = Some (map (\<lambda>i. make_range e c (s + int i * c)) [0..<window_count e c s])"
  unfolding create_date_ranges_of_def date_ranges_loop_eq[OF assms] by simp

lemma window_count_bounds:
  assumes "0 < c" "s \<le> e"
  shows "0 < window_count e c s"
    and "e < s + int (window_count e c s) * c"
    and "i < window_count e c s \<Longrightarrow> s + int i * c \<le> e"
proof -
  let ?q = "(e - s) div c"
  have q0: "0 \<le> ?q" using assms by (simp add: pos_imp_zdiv_nonneg_iff)
  have w: "int (window_count e c s) = ?q + 1" using assms(2) q0 by (simp add: window_count_def)
  have d: "e - s = ?q * c + (e - s) mod c" by simp
  have m: "0 \<le> (e - s) mod c" "(e - s) mod c < c" using assms(1) by simp_all
  show "0 < window_count e c s" using w q0 by linarith
  have "(?q + 1) * c = ?q * c + c" by (simp add: algebra_simps)
  with d m show "e < s + int (window_count e c s) * c" unfolding w by linarith
  assume "i < window_count e c s"
  then have "int i \<le> ?q" using w by linarith
  then have "int i * c \<le> ?q * c" using assms(1) by (simp add: mult_right_mono)
  with d m show "s + int i * c \<le> e" by linarith
qed

text \<open>Evaluating \<^const>\<open>str_int\<close> on a numeral, by rewriting.\<close>

lemma digits_of_numeral:
  "digits_of (numeral k) =
     (if numeral k < (10::nat) then [digit_char (numeral k)]
      else digits_of (numeral k div 10) @ [digit_char (numeral k mod 10)])"
  by (rule digits_of.simps)

lemma digits_of_one: "digits_of (Suc 0) = ''1''" and digits_of_zero: "digits_of 0 = ''0''"
  by (simp_all add: digits_of.simps[of "Suc 0"] digits_of.simps[of 0] digit_char_def)

lemmas str_int_eval = str_int_def digits_of_numeral digits_of_one digits_of_zero digit_char_def

lemma str_int_years:
  "str_int 1938 = ''1938''" "str_int 1947 = ''1947''" "str_int 2018 = ''2018''"
  by (simp_all add: str_int_eval)

lemma reference_date_plan:
  "\<exists>ranges. create_date_ranges = Some ranges
      \<and> length ranges = 9
      \<and> start_date (hd ranges) = ''1938-01-01'' \<and> end_date (hd ranges) = ''1947-12-31''
      \<and> start_date (last ranges) = ''2018-01-01'' \<and> end_date (last ranges) = ''2018-12-31''"
proof -
  let ?rs = "map (\<lambda>i. make_range 2018 10 (1938 + int i * 10)) [0..<9]"
  have n: "window_count 2018 10 1938 = 9" by (simp add: window_count_def)
  have c: "create_date_ranges = Some ?rs"
    unfolding create_date_ranges_def START_YEAR_def END_YEAR_def CHUNK_SIZE_def
    using create_date_ranges_of_eq[of 10 1938 2018] by (simp only: n)
  have l: "length ?rs = 9" by simp
  have h: "hd ?rs = make_range 2018 10 1938"
    by (simp add: hd_conv_nth del: upt_Suc map_upt_Suc)
  have "last ?rs = ?rs ! 8" using l by (simp add: last_conv_nth del: upt_Suc)
  then have t: "last ?rs = make_range 2018 10 2018" by (simp del: upt_Suc)
  have "start_date (hd ?rs) = ''1938-01-01'' \<and> end_date (hd ?rs) = ''1947-12-31''
      \<and> start_date (last ?rs) = ''2018-01-01'' \<and> end_date (last ?rs) = ''2018-12-31''"
    unfolding h t by (simp add: make_range_def str_int_years)
  with c l show ?thesis by blast
qed

text \<open>
  Claim C3. For \<open>first_year \<le> last_year\<close> and a positive \<open>years_per_chunk\<close> the date-mode
  planner returns a non-empty list in which entry \<open>i\<close> (counted from 0) is the window from
  year \<open>first_year + i * years_per_chunk\<close> to year
  \<open>min (first_year + (i + 1) * years_per_chunk - 1) last_year\<close>; every window starts at or
  before \<open>last_year\<close> and the window after the last one would start beyond it (where the
  loop stops); the date strings are the start year followed by \<open>-01-01\<close> and the end year
  followed by \<open>-12-31\<close>. With the constants of the script (1938, 2018, 10) there are 9
  windows, the first 1938-01-01 to 1947-12-31 and the last 2018-01-01 to 2018-12-31.
\<close>

theorem date_plan_windows:
  assumes "first_year \<le> last_year" "0 < years_per_chunk"
  shows "(\<exists>ranges. create_date_ranges_of first_year last_year years_per_chunk = Some ranges
      \<and> ranges \<noteq> []
      \<and> (\<forall>i < length ranges.
            start_year (ranges ! i) = first_year + int i * years_per_chunk
          \<and> end_year (ranges ! i)
              = min (first_year + (int i + 1) * years_per_chunk - 1) last_year
          \<and> start_year (ranges ! i) \<le> last_year
          \<and> start_date (ranges ! i) = str_int (start_year (ranges ! i)) @ ''-01-01''
          \<and> end_date (ranges ! i) = str_int (end_year (ranges ! i)) @ ''-12-31'')
      \<and> last_year < first_year + int (length ranges) * years_per_chunk)
    \<and> (\<exists>ranges. create_date_ranges = Some ranges
      \<and> length ranges = 9
      \<and> start_date (hd ranges) = ''1938-01-01'' \<and> end_date (hd ranges) = ''1947-12-31''
      \<and> start_date (last ranges) = ''2018-01-01'' \<and> end_date (last ranges) = ''2018-12-31'')"
proof
  let ?n = "window_count last_year years_per_chunk first_year"
  let ?rs = "map (\<lambda>i. make_range last_year years_per_chunk (first_year + int i * years_per_chunk))
               [0..<?n]"
  note b = window_count_bounds[OF assms(2,1)]
  have 1: "create_date_ranges_of first_year last_year years_per_chunk = Some ?rs"
    by (rule create_date_ranges_of_eq[OF assms(2)])
  have 2: "?rs \<noteq> []" using b(1) by simp
  have 3: "\<forall>i < length ?rs.
            start_year (?rs ! i) = first_year + int i * years_per_chunk
          \<and> end_year (?rs ! i)
              = min (first_year + (int i + 1) * years_per_chunk - 1) last_year
          \<and> start_year (?rs ! i) \<le> last_year
          \<and> start_date (?rs ! i) = str_int (start_year (?rs ! i)) @ ''-01-01''
          \<and> end_date (?rs ! i) = str_int (end_year (?rs ! i)) @ ''-12-31''"
    using b(3) by (simp add: make_range_def Let_def algebra_simps)
  have 4: "last_year < first_year + int (length ?rs) * years_per_chunk"
    using b(2) by simp
  from 1 2 3 4
  show "\<exists>ranges. create_date_ranges_of first_year last_year years_per_chunk = Some ranges
      \<and> ranges \<noteq> []
      \<and> (\<forall>i < length ranges.
            start_year (ranges ! i) = first_year + int i * years_per_chunk
          \<and> end_year (ranges ! i)
              = min (first_year + (int i + 1) * years_per_chunk - 1) last_year
          \<and> start_year (ranges ! i) \<le> last_year
          \<and> start_date (ranges ! i) = str_int (start_year (ranges ! i)) @ ''-01-01''
          \<and> end_date (ranges ! i) = str_int (end_year (ranges ! i)) @ ''-12-31'')
      \<and> last_year < first_year + int (length ranges) * years_per_chunk"
    by blast
next
  show "\<exists>ranges. create_date_ranges = Some ranges
      \<and> length ranges = 9
      \<and> start_date (hd ranges) = ''1938-01-01'' \<and> end_date (hd ranges) = ''1947-12-31''
      \<and> start_date (last ranges) = ''2018-01-01'' \<and> end_date (last ranges) = ''2018-12-31''"
    by (rule reference_date_plan)
qed

theorem date_plan_windows_witness:
  "\<exists>ranges. create_date_ranges_of 2000 2004 2 = Some ranges
     \<and> length ranges = 3
     \<and> start_year (ranges ! 2) = 2004 \<and> end_year (ranges ! 2) = 2004
     \<and> start_date (ranges ! 2) = ''2004-01-01'' \<and> end_date (ranges ! 2) = ''2004-12-31''"
proof -
  have h: "(2000::int) \<le> 2004" "(0::int) < 2" by simp_all
  have "window_count 2004 2 2000 = 3" by (simp add: window_count_def)
  then have e: "length (the (create_date_ranges_of 2000 2004 2)) = 3"
    by (simp add: create_date_ranges_of_eq)
  have s: "str_int 2004 = ''2004''" by (simp add: str_int_eval)
  from date_plan_windows[OF h] obtain ranges where
    r: "create_date_ranges_of 2000 2004 2 = Some ranges"
    and p: "\<forall>i < length ranges.
            start_year (ranges ! i) = 2000 + int i * 2
          \<and> end_year (ranges ! i) = min (2000 + (int i + 1) * 2 - 1) 2004
          \<and> start_year (ranges ! i) \<le> 2004
          \<and> start_date (ranges ! i) = str_int (start_year (ranges ! i)) @ ''-01-01''
          \<and> end_date (ranges ! i) = str_int (end_year (ranges ! i)) @ ''-12-31''"
    by blast
  from e r have l: "length ranges = 3" by simp
  then have "2 < length ranges" by simp
  with p have "start_year (ranges ! 2) = 2000 + int 2 * 2
          \<and> end_year (ranges ! 2) = min (2000 + (int 2 + 1) * 2 - 1) 2004
          \<and> start_date (ranges ! 2) = str_int (start_year (ranges ! 2)) @ ''-01-01''
          \<and> end_date (ranges ! 2) = str_int (end_year (ranges ! 2)) @ ''-12-31''" by blast
  with r l s show ?thesis by simp
qed

section \<open>The offset-mode executor: properties\<close>

lemma sent_send [simp]: "sent (send q w) = sent w @ [q]"
  and slept_send [simp]: "slept (send q w) = slept w"
  and files_send [simp]: "files (send q w) = files w"
  and writes_send [simp]: "writes (send q w) = writes w"
  by (simp_all add: send_def)

lemma sent_sleep [simp]: "sent (sleep t w) = sent w"
  and slept_sleep [simp]: "slept (sleep t w) = slept w @ [t]"
  and files_sleep [simp]: "files (sleep t w) = files w"
  and writes_sleep [simp]: "writes (sleep t w) = writes w"
  by (simp_all add: sleep_def)

lemma make_api_request_unfold:
  "make_api_request nt offset limit retry_count w =
     (case attempt nt offset limit retry_count w of
        Inl res \<Rightarrow> res
      | Inr w' \<Rightarrow> make_api_request nt offset limit (retry_count + 1) w')"
  by (subst make_api_request.simps)
     (simp add: attempt_def Let_def split: response.splits body.splits)

lemma attempt_Inr:
  assumes "attempt nt offset limit retry_count w = Inr w'"
  shows "retry_count < MAX_RETRIES" "sent w' = sent w @ [(offset, limit)]"
    "length (slept w') = Suc (length (slept w))" "files w' = files w" "writes w' = writes w"
  using assms
  by (auto simp: attempt_def Let_def split: response.splits body.splits if_splits)

lemma attempt_Inl:
  assumes "attempt nt offset limit retry_count w = Inl ((data, error), w')"
  shows "sent w' = sent w @ [(offset, limit)]"
    "length (slept w') \<le> Suc (length (slept w))" "files w' = files w" "writes w' = writes w"
    "(data = None) \<noteq> (error = None)"
  using assms
  by (auto simp: attempt_def Let_def split: response.splits body.splits if_splits)

lemma make_api_request_effects:
  "\<exists>k. 1 \<le> k \<and> int k \<le> max 1 (MAX_RETRIES - retry_count + 1)
      \<and> sent (snd (make_api_request nt offset limit retry_count w))
           = sent w @ replicate k (offset, limit)
      \<and> length (slept (snd (make_api_request nt offset limit retry_count w)))
           \<le> length (slept w) + k
      \<and> files (snd (make_api_request nt offset limit retry_count w)) = files w
      \<and> writes (snd (make_api_request nt offset limit retry_count w)) = writes w
      \<and> (fst (fst (make_api_request nt offset limit retry_count w)) = None)
           \<noteq> (snd (fst (make_api_request nt offset limit retry_count w)) = None)"
proof (induction "nat (MAX_RETRIES - retry_count)" arbitrary: retry_count w rule: less_induct)
  case less
  let ?q = "(offset, limit)"
  show ?case
  proof (cases "attempt nt offset limit retry_count w")
    case (Inl res)
    obtain data error w' where res: "res = ((data, error), w')" by (metis surj_pair)
    have e: "make_api_request nt offset limit retry_count w = ((data, error), w')"
      by (subst make_api_request_unfold) (simp add: Inl res)
    show ?thesis unfolding e using attempt_Inl[OF Inl[unfolded res]]
      by (intro exI[of _ 1]) simp
  next
    case (Inr w1)
    note a = attempt_Inr[OF Inr]
    have e: "make_api_request nt offset limit retry_count w
           = make_api_request nt offset limit (retry_count + 1) w1"
      by (subst make_api_request_unfold) (simp add: Inr)
    have "nat (MAX_RETRIES - (retry_count + 1)) < nat (MAX_RETRIES - retry_count)"
      using a(1) by linarith
    from less[OF this, of w1] obtain k where k:
      "1 \<le> k" "int k \<le> max 1 (MAX_RETRIES - (retry_count + 1) + 1)"
      "sent (snd (make_api_request nt offset limit (retry_count + 1) w1))
           = sent w1 @ replicate k ?q"
      "length (slept (snd (make_api_request nt offset limit (retry_count + 1) w1)))
           \<le> length (slept w1) + k"
      "files (snd (make_api_request nt offset limit (retry_count + 1) w1)) = files w1"
      "writes (snd (make_api_request nt offset limit (retry_count + 1) w1)) = writes w1"
      "(fst (fst (make_api_request nt offset limit (retry_count + 1) w1)) = None)
           \<noteq> (snd (fst (make_api_request nt offset limit (retry_count + 1) w1)) = None)"
      by blast
    have "int (Suc k) \<le> max 1 (MAX_RETRIES - retry_count + 1)" using k(1,2) a(1) by linarith
    moreover have "sent (snd (make_api_request nt offset limit (retry_count + 1) w1))
           = sent w @ replicate (Suc k) ?q"
      using k(3) a(2) by (simp add: replicate_app_Cons_same)
    moreover have "length (slept (snd (make_api_request nt offset limit (retry_count + 1) w1)))
           \<le> length (slept w) + Suc k" using k(4) a(3) by simp
    ultimately show ?thesis unfolding e using k(5,6,7) a(4,5)
      by (intro exI[of _ "Suc k"]) simp
  qed
qed

text \<open>
  Claim C10. \<^const>\<open>make_api_request\<close> is a total function: its definition is accepted with
  the measure \<open>MAX_RETRIES - retry_count\<close>, which every self-call decreases, whichever
  branch (503, 429, network error) makes it, since all of them pass the one counter
  \<open>retry_count + 1\<close> on. Called as \<^verbatim>\<open>main\<close> calls it (\<open>retry_count = 0\<close>), for every sequence of
  responses it sends at least one and at most \<open>MAX_RETRIES + 1\<close> requests, all for the same
  offset and limit (so it calls itself at most \<open>MAX_RETRIES\<close> times), and sleeps at most
  once per request.
\<close>

theorem retry_budget_shared:
  "\<exists>k. 1 \<le> k \<and> int k \<le> MAX_RETRIES + 1
      \<and> sent (snd (make_api_request nt offset limit 0 w)) = sent w @ replicate k (offset, limit)
      \<and> length (slept (snd (make_api_request nt offset limit 0 w))) \<le> length (slept w) + k"
proof -
  from make_api_request_effects[of 0 nt offset limit w] obtain k where
    "1 \<le> k" "int k \<le> max 1 (MAX_RETRIES - 0 + 1)"
    "sent (snd (make_api_request nt offset limit 0 w)) = sent w @ replicate k (offset, limit)"
    "length (slept (snd (make_api_request nt offset limit 0 w))) \<le> length (slept w) + k"
    by blast
  then show ?thesis by (intro exI[of _ k]) (simp add: MAX_RETRIES_def)
qed

lemma str_int_codes:
  "str_int 503 = ''503''" "str_int 404 = ''404''" "str_int 429 = ''429''" "str_int 500 = ''500''"
  by (simp_all add: str_int_eval)

lemma attempt_transient_retry:
  assumes "transient (nt (length (sent w)))" "retry_count < MAX_RETRIES"
  shows "\<exists>w1. attempt nt offset limit retry_count w = Inr w1"
  using assms
  by (auto simp: attempt_def transient_def Let_def split: response.splits)

lemma attempt_transient_exhausted:
  assumes "transient (nt (length (sent w)))" "\<not> retry_count < MAX_RETRIES"
  shows "\<exists>err w1. attempt nt offset limit retry_count w = Inl ((None, Some err), w1)
           \<and> (\<forall>reason b. nt (length (sent w)) = HTTP 503 reason b
                 \<longrightarrow> err = ''Max retries exceeded: HTTP Error 503: '' @ reason)"
  using assms
  by (auto simp: attempt_def transient_def Let_def str_int_codes split: response.splits)

lemma make_api_request_all_transient:
  assumes "retry_count \<le> MAX_RETRIES"
    and "\<forall>k < nat (MAX_RETRIES - retry_count + 1). transient (nt (length (sent w) + k))"
  shows "\<exists>err. fst (make_api_request nt offset limit retry_count w) = (None, Some err)
           \<and> sent (snd (make_api_request nt offset limit retry_count w))
               = sent w @ replicate (nat (MAX_RETRIES - retry_count + 1)) (offset, limit)
           \<and> (\<forall>reason b. nt (length (sent w) + nat (MAX_RETRIES - retry_count)) = HTTP 503 reason b
                 \<longrightarrow> err = ''Max retries exceeded: HTTP Error 503: '' @ reason)"
  using assms
proof (induction "nat (MAX_RETRIES - retry_count)" arbitrary: retry_count w rule: less_induct)
  case less
  let ?q = "(offset, limit)"
  have t0: "transient (nt (length (sent w)))" using less.prems by (auto dest: spec[of _ 0])
  show ?case
  proof (cases "retry_count < MAX_RETRIES")
    case False
    then have rc: "retry_count = MAX_RETRIES" using less.prems(1) by simp
    from attempt_transient_exhausted[where nt=nt and w=w and retry_count=retry_count and offset=offset and limit=limit, OF t0 False] obtain err w1 where
      a: "attempt nt offset limit retry_count w = Inl ((None, Some err), w1)"
      and m: "\<forall>reason b. nt (length (sent w)) = HTTP 503 reason b
                 \<longrightarrow> err = ''Max retries exceeded: HTTP Error 503: '' @ reason" by blast
    have e: "make_api_request nt offset limit retry_count w = ((None, Some err), w1)"
      by (subst make_api_request_unfold) (simp add: a)
    show ?thesis unfolding e using attempt_Inl(1)[OF a] m by (simp add: rc)
  next
    case True
    from attempt_transient_retry[where nt=nt and w=w and retry_count=retry_count and offset=offset and limit=limit, OF t0 True] obtain w1 where
      a: "attempt nt offset limit retry_count w = Inr w1" by blast
    note s = attempt_Inr[OF a]
    have e: "make_api_request nt offset limit retry_count w
           = make_api_request nt offset limit (retry_count + 1) w1"
      by (subst make_api_request_unfold) (simp add: a)
    have m: "nat (MAX_RETRIES - (retry_count + 1)) < nat (MAX_RETRIES - retry_count)"
      using True by linarith
    have n: "nat (MAX_RETRIES - retry_count + 1) = Suc (nat (MAX_RETRIES - (retry_count + 1) + 1))"
      "nat (MAX_RETRIES - retry_count) = Suc (nat (MAX_RETRIES - (retry_count + 1)))"
      using True by linarith+
    have p: "\<forall>k < nat (MAX_RETRIES - (retry_count + 1) + 1). transient (nt (length (sent w1) + k))"
    proof (intro allI impI)
      fix k assume "k < nat (MAX_RETRIES - (retry_count + 1) + 1)"
      then have "Suc k < nat (MAX_RETRIES - retry_count + 1)" using n(1) by simp
      with less.prems(2) have "transient (nt (length (sent w) + Suc k))" by blast
      then show "transient (nt (length (sent w1) + k))" by (simp add: s(2))
    qed
    have "retry_count + 1 \<le> MAX_RETRIES" using True by simp
    from less.hyps[OF m this p] obtain err where
      r: "fst (make_api_request nt offset limit (retry_count + 1) w1) = (None, Some err)"
      "sent (snd (make_api_request nt offset limit (retry_count + 1) w1))
               = sent w1 @ replicate (nat (MAX_RETRIES - (retry_count + 1) + 1)) ?q"
      "\<forall>reason b. nt (length (sent w1) + nat (MAX_RETRIES - (retry_count + 1))) = HTTP 503 reason b
                 \<longrightarrow> err = ''Max retries exceeded: HTTP Error 503: '' @ reason"
      by blast
    show ?thesis unfolding e n using r by (simp add: s(2) replicate_app_Cons_same)
  qed
qed

lemma make_api_request_monthly_failure:
  assumes "transient (nt (length (sent w)))"
  shows "\<exists>err. make_api_request_monthly nt start_d end_d w
           = Inr ((None, Some (''Request error: '' @ err)), send (start_d, end_d) w)"
  using assms
  by (auto simp: make_api_request_monthly_def transient_def Let_def split: response.splits)

text \<open>
  Claim C5. When the response to a request of the offset-mode executor is an HTTP status
  outside 200-299 other than 503 and 429, the call returns \<^verbatim>\<open>(None, error)\<close> with the
  error text \<open>HTTP Error <status>: <reason>\<close>, having sent exactly that one request and
  slept not at all: no retry follows, whatever the retry counter is.
\<close>

theorem permanent_failure_once:
  assumes "nt (length (sent w)) = HTTP code reason b"
    and "\<not> (200 \<le> code \<and> code < 300)" "code \<noteq> 503" "code \<noteq> 429"
  shows "fst (make_api_request nt offset limit retry_count w)
           = (None, Some (''HTTP Error '' @ str_int code @ '': '' @ reason))
       \<and> sent (snd (make_api_request nt offset limit retry_count w)) = sent w @ [(offset, limit)]
       \<and> slept (snd (make_api_request nt offset limit retry_count w)) = slept w"
proof -
  have "attempt nt offset limit retry_count w
          = Inl ((None, Some (''HTTP Error '' @ str_int code @ '': '' @ reason)),
                 send (offset, limit) w)"
    using assms by (auto simp: attempt_def Let_def)
  then have "make_api_request nt offset limit retry_count w
          = ((None, Some (''HTTP Error '' @ str_int code @ '': '' @ reason)),
             send (offset, limit) w)"
    by (subst make_api_request_unfold) simp
  then show ?thesis by simp
qed

theorem permanent_failure_once_witness:
  "fst (make_api_request always_404 1 1000 0 fresh_world)
      = (None, Some ''HTTP Error 404: Not Found'')
   \<and> sent (snd (make_api_request always_404 1 1000 0 fresh_world))
      = [(1, 1000)]
   \<and> slept (snd (make_api_request always_404 1 1000 0 fresh_world)) = []"
  using permanent_failure_once[of always_404 fresh_world 404
      "''Not Found''" Empty 1 1000 0]
  by (simp add: fresh_world_def always_404_def str_int_codes)

text \<open>
  Claim C2, as amended. In the offset-mode executor a chunk whose first
  \<open>MAX_RETRIES + 1 = 4\<close> responses are all transient failures (a transport error, 503 or
  429, in any mix) is requested exactly 4 times and the call then returns
  \<^verbatim>\<open>(None, error)\<close>; when the last of these failures is a 503 the error text starts with
  \<open>Max retries exceeded\<close>. The date-mode executor has no retry: after one transient
  failure it returns \<^verbatim>\<open>(None, "Request error: ...")\<close> with that single request sent.
\<close>

theorem transient_retry_bound:
  fixes w :: offset_world and wm :: date_world
  assumes "\<forall>k < nat (MAX_RETRIES + 1). transient (nt (length (sent w) + k))"
    and "transient (ntm (length (sent wm)))"
  shows "(\<exists>err. fst (make_api_request nt offset limit 0 w) = (None, Some err)
            \<and> (\<forall>reason b. nt (length (sent w) + nat MAX_RETRIES) = HTTP 503 reason b
                  \<longrightarrow> err = ''Max retries exceeded: HTTP Error 503: '' @ reason))
       \<and> sent (snd (make_api_request nt offset limit 0 w))
            = sent w @ replicate (nat (MAX_RETRIES + 1)) (offset, limit)
       \<and> nat (MAX_RETRIES + 1) = 4
       \<and> (\<exists>err. make_api_request_monthly ntm start_d end_d wm
                  = Inr ((None, Some (''Request error: '' @ err)), send (start_d, end_d) wm))"
proof -
  have r: "(0::int) \<le> MAX_RETRIES" by (simp add: MAX_RETRIES_def)
  have p: "\<forall>k < nat (MAX_RETRIES - 0 + 1). transient (nt (length (sent w) + k))"
    using assms(1) by simp
  from make_api_request_all_transient[where nt=nt and w=w and retry_count=0 and offset=offset and limit=limit, OF r p]
  have 1: "(\<exists>err. fst (make_api_request nt offset limit 0 w) = (None, Some err)
            \<and> (\<forall>reason b. nt (length (sent w) + nat MAX_RETRIES) = HTTP 503 reason b
                  \<longrightarrow> err = ''Max retries exceeded: HTTP Error 503: '' @ reason))"
    and 2: "sent (snd (make_api_request nt offset limit 0 w))
            = sent w @ replicate (nat (MAX_RETRIES + 1)) (offset, limit)"
    by auto
  have 3: "nat (MAX_RETRIES + 1) = 4" by (simp add: MAX_RETRIES_def)
  from 1 2 3 make_api_request_monthly_failure[where nt=ntm and w=wm and start_d=start_d and end_d=end_d, OF assms(2)]
  show ?thesis by blast
qed

theorem transient_retry_bound_witness:
  "fst (make_api_request always_503 1 1000 0 fresh_world)
      = (None, Some ''Max retries exceeded: HTTP Error 503: Service Unavailable'')
   \<and> sent (snd (make_api_request always_503 1 1000 0 fresh_world)) = replicate 4 (1, 1000)"
proof -
  have h1: "\<forall>k < nat (MAX_RETRIES + 1).
              transient (always_503 (length (sent (fresh_world :: offset_world)) + k))"
    by (simp add: transient_def always_503_def)
  have h2: "transient (always_503 (length (sent (fresh_world :: date_world))))"
    by (simp add: transient_def always_503_def)
  have a: "always_503 (length (sent (fresh_world :: offset_world)) + nat MAX_RETRIES)
             = HTTP 503 ''Service Unavailable'' Empty"
    by (simp add: always_503_def)
  from transient_retry_bound[where nt=always_503 and w=fresh_world and ntm=always_503
      and wm=fresh_world and offset=1 and limit=1000, OF h1 h2] a
  show ?thesis by (auto simp: fresh_world_def)
qed

text \<open>
  Claim C2 as stated fails for the date-mode executor: against a server that always
  answers 503 it sends one request, not \<open>MAX_RETRIES + 1\<close>, sleeps not at all, and its
  error text says nothing of retries.
\<close>

theorem transient_retry_bound_counterexample:
  "transient (always_503 0)
   \<and> \<not> isl (make_api_request_monthly always_503 ''1938-01-01'' ''1947-12-31'' fresh_world)
   \<and> fst (fst (projr (make_api_request_monthly always_503 ''1938-01-01'' ''1947-12-31''
                       fresh_world))) = None
   \<and> sent (snd (projr (make_api_request_monthly always_503 ''1938-01-01'' ''1947-12-31''
                       fresh_world))) = [(''1938-01-01'', ''1947-12-31'')]
   \<and> slept (snd (projr (make_api_request_monthly always_503 ''1938-01-01'' ''1947-12-31''
                        fresh_world))) = []
   \<and> length [(''1938-01-01'', ''1947-12-31'')] \<noteq> nat (MAX_RETRIES + 1)"
  by (simp add: transient_def always_503_def make_api_request_monthly_def fresh_world_def
        send_def MAX_RETRIES_def)

section \<open>The offset-mode run controller: properties\<close>

lemma sent_create_file [simp]: "sent (create_file f w) = sent w"
  and slept_create_file [simp]: "slept (create_file f w) = slept w"
  and writes_create_file [simp]: "writes (create_file f w) = writes w"
  and files_create_file [simp]: "set (files (create_file f w)) = insert f (set (files w))"
  by (auto simp: create_file_def)

lemma pause_between_fields [simp]:
  "sent (pause_between i n w) = sent w" "files (pause_between i n w) = files w"
  "writes (pause_between i n w) = writes w"
  by (simp_all add: pause_between_def)

lemma error_or_unknown_nonempty: "error_or_unknown error \<noteq> []"
  by (simp add: error_or_unknown_def split: option.splits)

lemma save_to_file_effects:
  assumes "save_to_file dk data i w = Inr (ok, w')"
  shows "sent w' = sent w \<and> writes w' = writes w @ [i]
    \<and> set (files w) \<subseteq> set (files w') \<and> set (files w') \<subseteq> insert i (set (files w))
    \<and> (ok \<longrightarrow> i \<in> set (files w'))"
  using assms by (auto simp: save_to_file_def Let_def split: if_splits)

lemma process_chunk_skip:
  "i \<in> set existing_files \<Longrightarrow>
     process_chunk e existing_files n i (r, w) = Inr (count_success i r, w)"
  by (simp add: process_chunk_def)

lemma process_chunk_cases:
  assumes "i \<notin> set existing_files"
    and "make_api_request (net e) (i * LIMIT + 1) LIMIT 0 w = ((data, error), w1)"
    and "process_chunk e existing_files n i (r, w) = Inr (r', w')"
  shows "(r' = record_failure i (error_or_unknown error) r \<and> w' = pause_between i n w1)
       \<or> (\<exists>d ok w2. data = Some d \<and> save_to_file (disk e) d i w1 = Inr (ok, w2)
             \<and> w' = pause_between i n w2
             \<and> r' = (if ok then count_success i r else record_failure i ''File save error'' r))"
  using assms
  by (auto simp: process_chunk_def Let_def
        split: option.splits sum.splits bool.splits prod.splits)

lemma process_chunk_fetch:
  assumes "i \<notin> set existing_files"
    and "process_chunk e existing_files n i (r, w) = Inr (r', w')"
  shows "\<exists>k. 1 \<le> k \<and> sent w' = sent w @ replicate k (chunk_offset LIMIT i, LIMIT)"
    and "set (files w) \<subseteq> set (files w')" and "set (files w') \<subseteq> insert i (set (files w))"
    and "(r' = count_success i r \<and> i \<in> set (files w'))
          \<or> (\<exists>msg. msg \<noteq> [] \<and> r' = record_failure i msg r)"
proof -
  let ?m = "make_api_request (net e) (i * LIMIT + 1) LIMIT 0 w"
  obtain data error w1 where m: "?m = ((data, error), w1)" by (metis surj_pair)
  from make_api_request_effects[of 0 "net e" "i * LIMIT + 1" LIMIT w] obtain k where
    k: "1 \<le> k" "sent w1 = sent w @ replicate k (i * LIMIT + 1, LIMIT)"
      "files w1 = files w" "writes w1 = writes w"
    unfolding m by auto
  have s: "sent w' = sent w1 \<and> set (files w1) \<subseteq> set (files w')
         \<and> set (files w') \<subseteq> insert i (set (files w1))
         \<and> ((r' = count_success i r \<and> i \<in> set (files w'))
              \<or> (\<exists>msg. msg \<noteq> [] \<and> r' = record_failure i msg r))"
    using process_chunk_cases[OF assms(1) m assms(2)]
  proof (elim disjE exE conjE)
    assume "r' = record_failure i (error_or_unknown error) r" "w' = pause_between i n w1"
    then show ?thesis using error_or_unknown_nonempty[of error] by auto
  next
    fix d ok w2
    assume a: "save_to_file (disk e) d i w1 = Inr (ok, w2)" "w' = pause_between i n w2"
      "r' = (if ok then count_success i r else record_failure i ''File save error'' r)"
    from save_to_file_effects[OF a(1)] a(2,3) show ?thesis
      by (cases ok) auto
  qed
  from s k show "\<exists>k. 1 \<le> k \<and> sent w' = sent w @ replicate k (chunk_offset LIMIT i, LIMIT)"
    by (auto simp: chunk_offset_def)
  from s k show "set (files w) \<subseteq> set (files w')" by simp
  from s k show "set (files w') \<subseteq> insert i (set (files w))" by simp
  from s show "(r' = count_success i r \<and> i \<in> set (files w'))
          \<or> (\<exists>msg. msg \<noteq> [] \<and> r' = record_failure i msg r)" by simp
qed

lemma count_success_fields [simp]:
  "completed (count_success i r) = completed r @ [i]"
  "failed_requests (count_success i r) = failed_requests r"
  "successful_requests (count_success i r) = successful_requests r + 1"
  by (simp_all add: count_success_def)

lemma record_failure_fields [simp]:
  "completed (record_failure i msg r) = completed r"
  "failed_requests (record_failure i msg r) = failed_requests r @ [(i, msg)]"
  "successful_requests (record_failure i msg r) = successful_requests r"
  by (simp_all add: record_failure_def)

lemma process_chunk_step:
  assumes "process_chunk e existing_files n i (r, w) = Inr (r', w')"
  shows "\<exists>new. sent w' = sent w @ new
       \<and> set new = (if i \<in> set existing_files then {} else {(chunk_offset LIMIT i, LIMIT)})
       \<and> set (files w) \<subseteq> set (files w')
       \<and> ((r' = count_success i r \<and> i \<in> set existing_files \<union> set (files w'))
            \<or> (i \<notin> set existing_files \<and> (\<exists>msg. msg \<noteq> [] \<and> r' = record_failure i msg r)))"
proof (cases "i \<in> set existing_files")
  case True
  with assms show ?thesis by (simp add: process_chunk_skip)
next
  case False
  from process_chunk_fetch(1)[OF False assms] obtain k where
    k: "1 \<le> k" "sent w' = sent w @ replicate k (chunk_offset LIMIT i, LIMIT)" by blast
  have "set (replicate k (chunk_offset LIMIT i, LIMIT)) = {(chunk_offset LIMIT i, LIMIT)}"
    using k(1) by auto
  with k(2) process_chunk_fetch(2,4)[OF False assms] False show ?thesis by auto
qed

lemma run_chunks_effects:
  assumes "run_chunks e existing_files n chunks (r, w) = Inr (r', w')" "distinct chunks"
  shows "\<exists>cs fl new.
      completed r' = completed r @ cs
    \<and> failed_requests r' = failed_requests r @ fl
    \<and> successful_requests r' = successful_requests r + int (length cs)
    \<and> set cs \<union> fst ` set fl = set chunks \<and> set cs \<inter> fst ` set fl = {}
    \<and> distinct cs \<and> distinct (map fst fl) \<and> [] \<notin> snd ` set fl
    \<and> sent w' = sent w @ new
    \<and> set new = (\<lambda>i. (chunk_offset LIMIT i, LIMIT)) ` (set chunks - set existing_files)
    \<and> set chunks \<inter> set existing_files \<subseteq> set cs
    \<and> set (files w) \<subseteq> set (files w')
    \<and> set cs \<subseteq> set existing_files \<union> set (files w')
    \<and> (fl = [] \<longrightarrow> cs = chunks)"
  using assms
proof (induction chunks arbitrary: r w)
  case Nil
  then show ?case by simp
next
  case (Cons i rest)
  from Cons.prems(1) obtain r1 w1 where
    p: "process_chunk e existing_files n i (r, w) = Inr (r1, w1)"
    and q: "run_chunks e existing_files n rest (r1, w1) = Inr (r', w')"
    by (auto split: sum.splits)
  from Cons.prems(2) have d: "distinct rest" "i \<notin> set rest" by simp_all
  from Cons.IH[OF q d(1)] obtain cs fl new where ih:
    "completed r' = completed r1 @ cs" "failed_requests r' = failed_requests r1 @ fl"
    "successful_requests r' = successful_requests r1 + int (length cs)"
    "set cs \<union> fst ` set fl = set rest" "set cs \<inter> fst ` set fl = {}"
    "distinct cs" "distinct (map fst fl)" "[] \<notin> snd ` set fl"
    "sent w' = sent w1 @ new"
    "set new = (\<lambda>i. (chunk_offset LIMIT i, LIMIT)) ` (set rest - set existing_files)"
    "set rest \<inter> set existing_files \<subseteq> set cs"
    "set (files w1) \<subseteq> set (files w')"
    "set cs \<subseteq> set existing_files \<union> set (files w')"
    "fl = [] \<longrightarrow> cs = rest"
    by (elim exE conjE) (rule that; assumption)
  from process_chunk_step[OF p] obtain new1 where st:
    "sent w1 = sent w @ new1"
    "set new1 = (if i \<in> set existing_files then {} else {(chunk_offset LIMIT i, LIMIT)})"
    "set (files w) \<subseteq> set (files w1)"
    "(r1 = count_success i r \<and> i \<in> set existing_files \<union> set (files w1))
       \<or> (i \<notin> set existing_files \<and> (\<exists>msg. msg \<noteq> [] \<and> r1 = record_failure i msg r))"
    by (elim exE conjE) (rule that; assumption)
  have icsfl: "i \<notin> set cs" "i \<notin> fst ` set fl" using ih(4) d(2) by auto
  have snew: "sent w' = sent w @ (new1 @ new)" using ih(9) st(1) by simp
  have setnew: "set (new1 @ new)
      = (\<lambda>i. (chunk_offset LIMIT i, LIMIT)) ` (set (i # rest) - set existing_files)"
    using ih(10) st(2) by auto
  have fmono: "set (files w) \<subseteq> set (files w')" using st(3) ih(12) by blast
  from st(4) show ?case
  proof (elim disjE conjE exE)
    assume a: "r1 = count_success i r" "i \<in> set existing_files \<union> set (files w1)"
    have c1: "completed r' = completed r @ (i # cs)" using ih(1) a(1) by simp
    have c2: "failed_requests r' = failed_requests r @ fl" using ih(2) a(1) by simp
    have c3: "successful_requests r' = successful_requests r + int (length (i # cs))"
      using ih(3) a(1) by simp
    have c4: "set (i # cs) \<union> fst ` set fl = set (i # rest)" using ih(4) by auto
    have c5: "set (i # cs) \<inter> fst ` set fl = {}" using ih(5) icsfl by auto
    have c6: "distinct (i # cs)" using ih(6) icsfl by simp
    have c11: "set (i # rest) \<inter> set existing_files \<subseteq> set (i # cs)"
      using ih(11) by auto
    have c13: "set (i # cs) \<subseteq> set existing_files \<union> set (files w')"
      using ih(13) a(2) ih(12) by auto
    have c14: "fl = [] \<longrightarrow> i # cs = i # rest" using ih(14) by simp
    show ?thesis
      by (rule exI[of _ "i # cs"], rule exI[of _ fl], rule exI[of _ "new1 @ new"])
         (intro conjI c1 c2 c3 c4 c5 c6 ih(7) ih(8) snew setnew c11 fmono c13 c14)
  next
    fix msg
    assume a: "i \<notin> set existing_files" "msg \<noteq> []" "r1 = record_failure i msg r"
    have c1: "completed r' = completed r @ cs" using ih(1) a(3) by simp
    have c2: "failed_requests r' = failed_requests r @ ((i, msg) # fl)"
      using ih(2) a(3) by simp
    have c3: "successful_requests r' = successful_requests r + int (length cs)"
      using ih(3) a(3) by simp
    have c4: "set cs \<union> fst ` set ((i, msg) # fl) = set (i # rest)" using ih(4) by auto
    have c5: "set cs \<inter> fst ` set ((i, msg) # fl) = {}" using ih(5) icsfl by auto
    have c7: "distinct (map fst ((i, msg) # fl))" using ih(7) icsfl by simp
    have c8: "[] \<notin> snd ` set ((i, msg) # fl)" using ih(8) a(2) by auto
    have c11: "set (i # rest) \<inter> set existing_files \<subseteq> set cs"
      using ih(11) a(1) by auto
    have c14: "(i, msg) # fl = [] \<longrightarrow> cs = i # rest" by simp
    show ?thesis
      by (rule exI[of _ cs], rule exI[of _ "(i, msg) # fl"], rule exI[of _ "new1 @ new"])
         (intro conjI c1 c2 c3 c4 c5 ih(6) c7 c8 snew setnew c11 fmono ih(13) c14)
  qed
qed

lemma num_requests_reference: "num_requests TOTAL_RECORDS LIMIT = 39"
  by (simp add: num_requests_def TOTAL_RECORDS_def LIMIT_def)

lemma distinct_range_py: "distinct (range_py n)"
  by (simp add: range_py_def distinct_map)

lemma length_range_py: "length (range_py n) = nat n"
  by (simp add: range_py_def)

lemma set_check_existing_files:
  "set (check_existing_files w) = set (range_py 39) \<inter> set (files w)"
  by (auto simp: check_existing_files_def)

lemma main_effects:
  assumes "main e w = Inr (r, w')"
  shows "\<exists>new.
      successful_requests r = int (length (completed r))
    \<and> set (completed r) \<union> fst ` set (failed_requests r) = set (range_py 39)
    \<and> set (completed r) \<inter> fst ` set (failed_requests r) = {}
    \<and> distinct (completed r) \<and> distinct (map fst (failed_requests r))
    \<and> [] \<notin> snd ` set (failed_requests r)
    \<and> sent w' = sent w @ new
    \<and> set new = (\<lambda>i. (chunk_offset LIMIT i, LIMIT)) ` (set (range_py 39) - set (files w))
    \<and> set (range_py 39) \<inter> set (files w) \<subseteq> set (completed r)
    \<and> set (files w) \<subseteq> set (files w')
    \<and> set (completed r) \<subseteq> set (files w')
    \<and> (failed_requests r = [] \<longrightarrow> completed r = range_py 39)"
proof -
  let ?r0 = "\<lparr>successful_requests = 0, failed_requests = [], completed = []\<rparr>"
  have m: "run_chunks e (check_existing_files w) 39 (range_py 39) (?r0, w) = Inr (r, w')"
    using assms by (simp add: main_def Let_def num_requests_reference)
  from run_chunks_effects[OF m distinct_range_py] obtain cs fl new where f:
    "completed r = completed ?r0 @ cs" "failed_requests r = failed_requests ?r0 @ fl"
    "successful_requests r = successful_requests ?r0 + int (length cs)"
    "set cs \<union> fst ` set fl = set (range_py 39)" "set cs \<inter> fst ` set fl = {}"
    "distinct cs" "distinct (map fst fl)" "[] \<notin> snd ` set fl"
    "sent w' = sent w @ new"
    "set new = (\<lambda>i. (chunk_offset LIMIT i, LIMIT))
                 ` (set (range_py 39) - set (check_existing_files w))"
    "set (range_py 39) \<inter> set (check_existing_files w) \<subseteq> set cs"
    "set (files w) \<subseteq> set (files w')"
    "set cs \<subseteq> set (check_existing_files w) \<union> set (files w')"
    "fl = [] \<longrightarrow> cs = range_py 39"
    by (elim exE conjE) (rule that; assumption)
  have cs: "completed r = cs" and fl: "failed_requests r = fl" using f(1,2) by simp_all
  have d: "set (range_py 39) - set (check_existing_files w) = set (range_py 39) - set (files w)"
    "set (range_py 39) \<inter> set (check_existing_files w) = set (range_py 39) \<inter> set (files w)"
    by (auto simp: set_check_existing_files)
  have c1: "successful_requests r = int (length (completed r))" using f(3) cs by simp
  have c13: "set (completed r) \<subseteq> set (files w')"
    using f(13,12) unfolding cs set_check_existing_files by blast
  show ?thesis
    apply (rule exI[of _ new])
    unfolding cs fl
    using c1[unfolded cs] f(4-9) f(10)[unfolded d] f(11)[unfolded d] f(12) c13[unfolded cs] f(14)
    by (intro conjI)
qed

lemma run_chunks_all_existing:
  assumes "set chunks \<subseteq> set existing_files"
  shows "run_chunks e existing_files n chunks (r, w)
           = Inr (r\<lparr>successful_requests := successful_requests r + int (length chunks),
                    completed := completed r @ chunks\<rparr>, w)"
  using assms
proof (induction chunks arbitrary: r)
  case Nil
  then show ?case by simp
next
  case (Cons i rest)
  then show ?case by (simp add: process_chunk_skip count_success_def)
qed

lemma main_all_present:
  assumes "set (range_py 39) \<subseteq> set (files w)"
  shows "main e w = Inr (\<lparr>successful_requests = 39, failed_requests = [],
                          completed = range_py 39\<rparr>, w)"
proof -
  have "set (range_py 39) \<subseteq> set (check_existing_files w)"
    using assms by (simp add: set_check_existing_files)
  from run_chunks_all_existing[OF this] show ?thesis
    by (simp add: main_def Let_def num_requests_reference length_range_py)
qed

lemma inj_chunk_request: "inj (\<lambda>i. (chunk_offset LIMIT i, LIMIT))"
  by (auto simp: inj_on_def chunk_offset_def LIMIT_def)

text \<open>
  Claim C6. In every run of the offset-mode \<^verbatim>\<open>main\<close> that reaches its end, each planned
  chunk whose file is already in the data directory is counted as completed, and the
  requests the run sends are exactly those of the planned chunks whose file is missing:
  none is sent for a chunk that is present, and with \<open>N\<close> of the \<open>M = 39\<close> planned chunks
  present the executor fetches exactly \<open>M - N\<close> chunks.
\<close>

theorem resume_skips_existing:
  assumes "main e w = Inr (r, w')"
  shows "set (range_py (num_requests TOTAL_RECORDS LIMIT)) \<inter> set (files w) \<subseteq> set (completed r)
     \<and> set (drop (length (sent w)) (sent w'))
         = (\<lambda>i. (chunk_offset LIMIT i, LIMIT))
             ` (set (range_py (num_requests TOTAL_RECORDS LIMIT)) - set (files w))
     \<and> take (length (sent w)) (sent w') = sent w
     \<and> card (set (drop (length (sent w)) (sent w')))
         = length (range_py (num_requests TOTAL_RECORDS LIMIT))
           - card (set (range_py (num_requests TOTAL_RECORDS LIMIT)) \<inter> set (files w))"
proof -
  let ?P = "set (range_py 39)"
  from main_effects[OF assms] obtain new where
    n: "sent w' = sent w @ new"
      "set new = (\<lambda>i. (chunk_offset LIMIT i, LIMIT)) ` (?P - set (files w))"
    and c: "?P \<inter> set (files w) \<subseteq> set (completed r)"
    by (elim exE conjE)
  have d: "drop (length (sent w)) (sent w') = new" "take (length (sent w)) (sent w') = sent w"
    using n(1) by simp_all
  have "card (set new) = card (?P - set (files w))"
    unfolding n(2) by (rule card_image) (rule inj_on_subset[OF inj_chunk_request], simp)
  also have "\<dots> = card ?P - card (?P \<inter> set (files w))"
    by (simp add: card_Diff_subset_Int)
  also have "card ?P = length (range_py 39)"
    by (rule distinct_card[OF distinct_range_py])
  finally have k: "card (set new) = length (range_py 39) - card (?P \<inter> set (files w))" .
  show ?thesis unfolding num_requests_reference d using c n(2) k by (intro conjI refl)
qed

theorem resume_skips_existing_witness:
  "main env_404 first_missing = Inr (projr (main env_404 first_missing))
   \<and> length (sent (snd (projr (main env_404 first_missing)))) = 1
   \<and> set (range_py (num_requests TOTAL_RECORDS LIMIT)) \<inter> set (files first_missing)
        \<subseteq> set (completed (fst (projr (main env_404 first_missing))))
   \<and> card (set (drop (length (sent first_missing))
                  (sent (snd (projr (main env_404 first_missing))))))
        = length (range_py (num_requests TOTAL_RECORDS LIMIT))
          - card (set (range_py (num_requests TOTAL_RECORDS LIMIT)) \<inter> set (files first_missing))"
proof -
  have m: "main env_404 first_missing = Inr (projr (main env_404 first_missing))"
    by code_simp
  then have m': "main env_404 first_missing
      = Inr (fst (projr (main env_404 first_missing)), snd (projr (main env_404 first_missing)))"
    by simp
  have l: "length (sent (snd (projr (main env_404 first_missing)))) = 1" by code_simp
  from resume_skips_existing[OF m'] m l show ?thesis by blast
qed

section \<open>The date-mode run controller: properties\<close>

lemma pause_monthly_fields [simp]:
  "sent (pause_monthly i n w) = sent w" "files (pause_monthly i n w) = files w"
  "writes (pause_monthly i n w) = writes w"
  by (simp_all add: pause_monthly_def)

lemma count_success_monthly_fields [simp]:
  "done_files (count_success_monthly name r) = done_files r @ [name]"
  "failed (count_success_monthly name r) = failed r"
  "successful (count_success_monthly name r) = successful r + 1"
  by (simp_all add: count_success_monthly_def)

lemma record_failure_monthly_fields [simp]:
  "done_files (record_failure_monthly name r) = done_files r"
  "failed (record_failure_monthly name r) = failed r @ [name]"
  "successful (record_failure_monthly name r) = successful r"
  by (simp_all add: record_failure_monthly_def)

lemma make_api_request_monthly_world:
  assumes "make_api_request_monthly nt start_d end_d w = Inr (res, w1)"
  shows "w1 = send (start_d, end_d) w"
  using assms
  by (auto simp: make_api_request_monthly_def Let_def
        split: response.splits body.splits if_splits sum.splits)

lemma save_data_effects:
  assumes "save_data dk data name w = (ok, w')"
  shows "sent w' = sent w \<and> writes w' = writes w @ [name]
    \<and> set (files w) \<subseteq> set (files w') \<and> set (files w') \<subseteq> insert name (set (files w))
    \<and> (ok \<longrightarrow> name \<in> set (files w'))"
  using assms by (auto simp: save_data_def Let_def split: if_splits sum.splits)

lemma process_range_skip:
  "filename info \<in> set existing_files \<Longrightarrow>
     process_range e existing_files n (i, info) (r, w)
       = Inr (count_success_monthly (filename info) r, w)"
  by (simp add: process_range_def)

lemma process_range_cases:
  assumes "filename info \<notin> set existing_files"
    and "process_range e existing_files n (i, info) (r, w) = Inr (r', w')"
  shows "(r' = record_failure_monthly (filename info) r
            \<and> w' = pause_monthly i n (send (start_date info, end_date info) w))
       \<or> (\<exists>d ok w2. save_data (disk e) d (filename info)
                        (send (start_date info, end_date info) w) = (ok, w2)
             \<and> w' = pause_monthly i n w2
             \<and> r' = (if ok then count_success_monthly (filename info) r
                     else record_failure_monthly (filename info) r))"
proof -
  from assms obtain data error w1 where
    m: "make_api_request_monthly (net e) (start_date info) (end_date info) w
          = Inr ((data, error), w1)"
    by (auto simp: process_range_def split: sum.splits)
  note w1 = make_api_request_monthly_world[OF m]
  show ?thesis using assms m unfolding w1
    by (auto simp: process_range_def Let_def
          split: option.splits bool.splits prod.splits if_splits)
qed

lemma process_range_step:
  assumes "process_range e existing_files n (i, info) (r, w) = Inr (r', w')"
  shows "\<exists>new. sent w' = sent w @ new
       \<and> set new = (if filename info \<in> set existing_files then {}
                    else {(start_date info, end_date info)})
       \<and> set (files w) \<subseteq> set (files w')
       \<and> ((r' = count_success_monthly (filename info) r
             \<and> filename info \<in> set existing_files \<union> set (files w'))
            \<or> (filename info \<notin> set existing_files
                 \<and> r' = record_failure_monthly (filename info) r))"
proof (cases "filename info \<in> set existing_files")
  case True
  with assms show ?thesis by (simp add: process_range_skip)
next
  case False
  from process_range_cases[OF False assms] show ?thesis
  proof (elim disjE exE conjE)
    assume "r' = record_failure_monthly (filename info) r"
      "w' = pause_monthly i n (send (start_date info, end_date info) w)"
    then show ?thesis using False by (intro exI[of _ "[(start_date info, end_date info)]"]) simp
  next
    fix d ok w2
    assume a: "save_data (disk e) d (filename info) (send (start_date info, end_date info) w)
                 = (ok, w2)"
      "w' = pause_monthly i n w2"
      "r' = (if ok then count_success_monthly (filename info) r
             else record_failure_monthly (filename info) r)"
    from save_data_effects[OF a(1)] a(2,3) False show ?thesis
      by (intro exI[of _ "[(start_date info, end_date info)]"]) (cases ok; auto)
  qed
qed

lemma run_ranges_effects:
  assumes "run_ranges e existing_files n irs (r, w) = Inr (r', w')"
    and "distinct (map (\<lambda>ir. filename (snd ir)) irs)"
  shows "\<exists>cs fl new.
      done_files r' = done_files r @ cs
    \<and> failed r' = failed r @ fl
    \<and> successful r' = successful r + int (length cs)
    \<and> set cs \<union> set fl = (\<lambda>ir. filename (snd ir)) ` set irs \<and> set cs \<inter> set fl = {}
    \<and> distinct cs \<and> distinct fl
    \<and> sent w' = sent w @ new
    \<and> set new = (\<lambda>ir. (start_date (snd ir), end_date (snd ir)))
                   ` {ir \<in> set irs. filename (snd ir) \<notin> set existing_files}
    \<and> set (files w) \<subseteq> set (files w')
    \<and> set cs \<subseteq> set existing_files \<union> set (files w')
    \<and> (fl = [] \<longrightarrow> cs = map (\<lambda>ir. filename (snd ir)) irs)"
  using assms
proof (induction irs arbitrary: r w)
  case Nil
  then show ?case by simp
next
  case (Cons ir rest)
  obtain i info where ir: "ir = (i, info)" by (cases ir)
  let ?name = "filename info"
  let ?f = "\<lambda>ir. filename (snd ir)"
  let ?q = "\<lambda>ir. (start_date (snd ir), end_date (snd ir))"
  from Cons.prems(1) obtain r1 w1 where
    p: "process_range e existing_files n (i, info) (r, w) = Inr (r1, w1)"
    and q: "run_ranges e existing_files n rest (r1, w1) = Inr (r', w')"
    unfolding ir by (auto split: sum.splits)
  from Cons.prems(2) have d: "distinct (map ?f rest)" "?name \<notin> ?f ` set rest"
    unfolding ir by simp_all
  from Cons.IH[OF q d(1)] obtain cs fl new where ih:
    "done_files r' = done_files r1 @ cs" "failed r' = failed r1 @ fl"
    "successful r' = successful r1 + int (length cs)"
    "set cs \<union> set fl = ?f ` set rest" "set cs \<inter> set fl = {}"
    "distinct cs" "distinct fl"
    "sent w' = sent w1 @ new"
    "set new = ?q ` {ir \<in> set rest. ?f ir \<notin> set existing_files}"
    "set (files w1) \<subseteq> set (files w')"
    "set cs \<subseteq> set existing_files \<union> set (files w')"
    "fl = [] \<longrightarrow> cs = map ?f rest"
    by (elim exE conjE) (rule that; assumption)
  from process_range_step[OF p] obtain new1 where st:
    "sent w1 = sent w @ new1"
    "set new1 = (if ?name \<in> set existing_files then {} else {(start_date info, end_date info)})"
    "set (files w) \<subseteq> set (files w1)"
    "(r1 = count_success_monthly ?name r \<and> ?name \<in> set existing_files \<union> set (files w1))
       \<or> (?name \<notin> set existing_files \<and> r1 = record_failure_monthly ?name r)"
    by (elim exE conjE) (rule that; assumption)
  have icsfl: "?name \<notin> set cs" "?name \<notin> set fl" using ih(4) d(2) by auto
  have snew: "sent w' = sent w @ (new1 @ new)" using ih(8) st(1) by simp
  have "{x \<in> set (ir # rest). ?f x \<notin> set existing_files}
      = (if ?name \<in> set existing_files then {} else {ir})
        \<union> {x \<in> set rest. ?f x \<notin> set existing_files}"
    unfolding ir by auto
  then have setnew:
    "set (new1 @ new) = ?q ` {x \<in> set (ir # rest). ?f x \<notin> set existing_files}"
    using ih(9) st(2) by (simp add: image_Un ir)
  have fmono: "set (files w) \<subseteq> set (files w')" using st(3) ih(10) by blast
  from st(4) show ?case
  proof (elim disjE conjE)
    assume a: "r1 = count_success_monthly ?name r" "?name \<in> set existing_files \<union> set (files w1)"
    have c1: "done_files r' = done_files r @ (?name # cs)" using ih(1) a(1) by simp
    have c2: "failed r' = failed r @ fl" using ih(2) a(1) by simp
    have c3: "successful r' = successful r + int (length (?name # cs))"
      using ih(3) a(1) by simp
    have c4: "set (?name # cs) \<union> set fl = ?f ` set (ir # rest)" using ih(4) unfolding ir by auto
    have c5: "set (?name # cs) \<inter> set fl = {}" using ih(5) icsfl by auto
    have c6: "distinct (?name # cs)" using ih(6) icsfl by simp
    have c11: "set (?name # cs) \<subseteq> set existing_files \<union> set (files w')"
      using ih(11) a(2) ih(10) by auto
    have c12: "fl = [] \<longrightarrow> ?name # cs = map ?f (ir # rest)" using ih(12) unfolding ir by simp
    show ?thesis
      by (rule exI[of _ "?name # cs"], rule exI[of _ fl], rule exI[of _ "new1 @ new"])
         (intro conjI c1 c2 c3 c4 c5 c6 ih(7) snew setnew fmono c11 c12)
  next
    assume a: "?name \<notin> set existing_files" "r1 = record_failure_monthly ?name r"
    have c1: "done_files r' = done_files r @ cs" using ih(1) a(2) by simp
    have c2: "failed r' = failed r @ (?name # fl)" using ih(2) a(2) by simp
    have c3: "successful r' = successful r + int (length cs)" using ih(3) a(2) by simp
    have c4: "set cs \<union> set (?name # fl) = ?f ` set (ir # rest)" using ih(4) unfolding ir by auto
    have c5: "set cs \<inter> set (?name # fl) = {}" using ih(5) icsfl by auto
    have c7: "distinct (?name # fl)" using ih(7) icsfl by simp
    have c12: "?name # fl = [] \<longrightarrow> cs = map ?f (ir # rest)" by simp
    show ?thesis
      by (rule exI[of _ cs], rule exI[of _ "?name # fl"], rule exI[of _ "new1 @ new"])
         (intro conjI c1 c2 c3 c4 c5 ih(6) c7 snew setnew fmono ih(11) c12)
  qed
qed

lemma run_ranges_all_existing:
  assumes "(\<lambda>ir. filename (snd ir)) ` set irs \<subseteq> set existing_files"
  shows "run_ranges e existing_files n irs (r, w)
           = Inr (r\<lparr>successful := successful r + int (length irs),
                    done_files := done_files r @ map (\<lambda>ir. filename (snd ir)) irs\<rparr>, w)"
  using assms
proof (induction irs arbitrary: r)
  case Nil
  then show ?case by simp
next
  case (Cons ir rest)
  obtain i info where ir: "ir = (i, info)" by (cases ir)
  from Cons show ?case unfolding ir
    by (simp add: process_range_skip count_success_monthly_def)
qed

lemma create_date_ranges_reference: "create_date_ranges = Some reference_ranges"
proof -
  have n: "window_count 2018 10 1938 = 9" by (simp add: window_count_def)
  have u: "[0..<9] = [0, 1, 2, 3, 4, 5, 6, 7, 8]" by (simp add: upt_conv_Cons)
  have "create_date_ranges = Some (map (\<lambda>i. make_range 2018 10 (1938 + int i * 10)) [0..<9])"
    unfolding create_date_ranges_def START_YEAR_def END_YEAR_def CHUNK_SIZE_def
    using create_date_ranges_of_eq[of 10 1938 2018] by (simp only: n)
  then show ?thesis unfolding u reference_ranges_def by simp
qed

lemma reference_files:
  "map filename reference_ranges =
     [''FIPS10003_avg_1938_to_1947.json'', ''FIPS10003_avg_1948_to_1957.json'',
      ''FIPS10003_avg_1958_to_1967.json'', ''FIPS10003_avg_1968_to_1977.json'',
      ''FIPS10003_avg_1978_to_1987.json'', ''FIPS10003_avg_1988_to_1997.json'',
      ''FIPS10003_avg_1998_to_2007.json'', ''FIPS10003_avg_2008_to_2017.json'',
      ''FIPS10003_avg_2018_to_2018.json'']"
  by (simp add: reference_ranges_def make_range_def str_int_eval)

lemma reference_files_distinct: "distinct (map filename reference_ranges)"
  unfolding reference_files by simp

lemma reference_files_match:
  "name \<in> set (map filename reference_ranges) \<Longrightarrow>
     startswith name ''FIPS10003_avg_'' \<and> endswith name ''.json''"
  unfolding reference_files by (auto simp: startswith_def endswith_def)

lemma enumerate1_files: "map (\<lambda>ir. filename (snd ir)) (enumerate1 plan) = map filename plan"
proof -
  have "map snd (enumerate1 plan) = plan"
    unfolding enumerate1_def by (rule map_snd_zip) (simp del: upt_Suc)
  then have "map filename (map snd (enumerate1 plan)) = map filename plan" by simp
  then show ?thesis by (simp add: comp_def)
qed

lemma length_enumerate1: "length (enumerate1 plan) = length plan"
  by (simp add: enumerate1_def del: upt_Suc)

lemma main_monthly_eq:
  "main_monthly e w =
     Some (run_ranges e (check_existing_files_monthly w) 9 (enumerate1 reference_ranges)
             (\<lparr>successful = 0, failed = [], done_files = []\<rparr>, w))"
  by (simp add: main_monthly_def main_monthly_of_def create_date_ranges_reference Let_def
        reference_ranges_def)

lemma main_monthly_effects:
  assumes "main_monthly e w = Some (Inr (r, w'))"
  shows "\<exists>new.
      successful r = int (length (done_files r))
    \<and> set (done_files r) \<union> set (failed r) = set (map filename reference_ranges)
    \<and> set (done_files r) \<inter> set (failed r) = {}
    \<and> distinct (done_files r) \<and> distinct (failed r)
    \<and> sent w' = sent w @ new
    \<and> set (files w) \<subseteq> set (files w')
    \<and> set (done_files r) \<subseteq> set (files w')
    \<and> (failed r = [] \<longrightarrow> done_files r = map filename reference_ranges)"
proof -
  let ?r0 = "\<lparr>successful = 0, failed = [], done_files = []\<rparr>"
  let ?f = "\<lambda>ir. filename (snd ir)"
  have m: "run_ranges e (check_existing_files_monthly w) 9 (enumerate1 reference_ranges) (?r0, w)
             = Inr (r, w')"
    using assms by (simp add: main_monthly_eq)
  have d: "distinct (map ?f (enumerate1 reference_ranges))"
    unfolding enumerate1_files by (rule reference_files_distinct)
  from run_ranges_effects[OF m d] obtain cs fl new where f:
    "done_files r = done_files ?r0 @ cs" "failed r = failed ?r0 @ fl"
    "successful r = successful ?r0 + int (length cs)"
    "set cs \<union> set fl = ?f ` set (enumerate1 reference_ranges)" "set cs \<inter> set fl = {}"
    "distinct cs" "distinct fl"
    "sent w' = sent w @ new"
    "set (files w) \<subseteq> set (files w')"
    "set cs \<subseteq> set (check_existing_files_monthly w) \<union> set (files w')"
    "fl = [] \<longrightarrow> cs = map ?f (enumerate1 reference_ranges)"
    by (elim exE conjE) (rule that; assumption)
  have cs: "done_files r = cs" and fl: "failed r = fl" using f(1,2) by simp_all
  have s: "?f ` set (enumerate1 reference_ranges) = set (map filename reference_ranges)"
    using arg_cong[OF enumerate1_files[of reference_ranges], of set] by simp
  have c1: "successful r = int (length cs)" using f(3) by simp
  have "set (check_existing_files_monthly w) \<subseteq> set (files w)"
    by (auto simp: check_existing_files_monthly_def)
  with f(9,10) have c8: "set cs \<subseteq> set (files w')" by blast
  show ?thesis
    apply (rule exI[of _ new])
    unfolding cs fl
    using c1 f(4)[unfolded s] f(5-9) c8 f(11)[unfolded enumerate1_files]
    by (intro conjI)
qed

lemma main_monthly_all_present:
  assumes "set (map filename reference_ranges) \<subseteq> set (files w)"
  shows "main_monthly e w = Some (Inr (\<lparr>successful = 9, failed = [],
                          done_files = map filename reference_ranges\<rparr>, w))"
proof -
  have "set (map filename reference_ranges) \<subseteq> set (check_existing_files_monthly w)"
    using assms reference_files_match by (auto simp: check_existing_files_monthly_def)
  then have "(\<lambda>ir. filename (snd ir)) ` set (enumerate1 reference_ranges)
       \<subseteq> set (check_existing_files_monthly w)"
    using arg_cong[OF enumerate1_files[of reference_ranges], of set] by simp
  from run_ranges_all_existing[OF this] show ?thesis
    by (simp add: main_monthly_eq length_enumerate1 enumerate1_files)
       (simp add: reference_ranges_def)
qed

lemma first_missing_monthly_eval:
  "first_missing_monthly =
     \<lparr>sent = [], slept = [],
      files = [''FIPS10003_avg_1948_to_1957.json'',
      ''FIPS10003_avg_1958_to_1967.json'', ''FIPS10003_avg_1968_to_1977.json'',
      ''FIPS10003_avg_1978_to_1987.json'', ''FIPS10003_avg_1988_to_1997.json'',
      ''FIPS10003_avg_1998_to_2007.json'', ''FIPS10003_avg_2008_to_2017.json'',
      ''FIPS10003_avg_2018_to_2018.json''], writes = []\<rparr>"
  unfolding first_missing_monthly_def reference_files by (simp add: fresh_world_def)

lemma main_monthly_first_missing:
  "main_monthly env_404 first_missing_monthly =
     Some (Inr (\<lparr>successful = 8, failed = [''FIPS10003_avg_1938_to_1947.json''],
                  done_files = tl (map filename reference_ranges)\<rparr>,
                first_missing_monthly\<lparr>sent := [(''1938-01-01'', ''1947-12-31'')], slept := [2]\<rparr>))"
  unfolding main_monthly_eq reference_files first_missing_monthly_eval
  by (simp add: check_existing_files_monthly_def reference_ranges_def make_range_def
        str_int_eval enumerate1_def process_range_def make_api_request_monthly_def
        env_404_def always_404_def startswith_def endswith_def send_def sleep_def
        pause_monthly_def record_failure_monthly_def count_success_monthly_def
        Let_def upt_conv_Cons)

lemma main_first_missing_404:
  "main env_404 first_missing = Inr (projr (main env_404 first_missing))"
  "failed_requests (fst (projr (main env_404 first_missing))) = [(0, ''HTTP Error 404: Not Found'')]"
  "completed (fst (projr (main env_404 first_missing))) = map int [1..<39]"
  "length (sent (snd (projr (main env_404 first_missing)))) = 1"
  "length (sent (snd (projr (main env_404 (snd (projr (main env_404 first_missing))))))) = 2"
  by code_simp+

text \<open>
  Claim C9, as amended. When a run ends with an empty failed list, the data directory it
  leaves holds the file of every planned chunk, and a second run from that state, under
  any environment, returns the same report (so the same completed set) and leaves the
  world as it found it: every chunk is skipped, no request is sent, nothing is written.
  This holds for both scripts.
\<close>

theorem resume_idempotent:
  assumes "main e w = Inr (r, w1)" and "failed_requests r = []"
    and "main_monthly em wm = Some (Inr (rm, wm1))" and "failed rm = []"
  shows "main e2 w1 = Inr (r, w1)
     \<and> set (completed r) = set (range_py (num_requests TOTAL_RECORDS LIMIT))
     \<and> main_monthly em2 wm1 = Some (Inr (rm, wm1))
     \<and> (\<exists>plan. create_date_ranges = Some plan \<and> done_files rm = map filename plan)"
proof -
  from main_effects[OF assms(1)] obtain new where a:
    "successful_requests r = int (length (completed r))"
    "set (completed r) \<subseteq> set (files w1)"
    "failed_requests r = [] \<longrightarrow> completed r = range_py 39"
    and "sent w1 = sent w @ new"
    by (elim exE conjE) (rule that; assumption)
  have c: "completed r = range_py 39" using a(3) assms(2) by simp
  have r: "r = \<lparr>successful_requests = 39, failed_requests = [], completed = range_py 39\<rparr>"
    using a(1) c assms(2) by (cases r) (simp add: length_range_py)
  have "set (range_py 39) \<subseteq> set (files w1)" using a(2) c by simp
  from main_all_present[OF this, of e2] have 1: "main e2 w1 = Inr (r, w1)" by (simp add: r)
  have 2: "set (completed r) = set (range_py (num_requests TOTAL_RECORDS LIMIT))"
    by (simp add: c num_requests_reference)
  from main_monthly_effects[OF assms(3)] obtain newm where b:
    "successful rm = int (length (done_files rm))"
    "set (done_files rm) \<subseteq> set (files wm1)"
    "failed rm = [] \<longrightarrow> done_files rm = map filename reference_ranges"
    and "sent wm1 = sent wm @ newm"
    by (elim exE conjE) (rule that; assumption)
  have d: "done_files rm = map filename reference_ranges" using b(3) assms(4) by simp
  have rm: "rm = \<lparr>successful = 9, failed = [], done_files = map filename reference_ranges\<rparr>"
    using b(1) d assms(4) by (cases rm) (simp add: reference_ranges_def)
  have "set (map filename reference_ranges) \<subseteq> set (files wm1)" using b(2) d by simp
  from main_monthly_all_present[OF this, of em2]
  have 3: "main_monthly em2 wm1 = Some (Inr (rm, wm1))" by (simp add: rm)
  have 4: "\<exists>plan. create_date_ranges = Some plan \<and> done_files rm = map filename plan"
    by (rule exI[of _ reference_ranges]) (intro conjI create_date_ranges_reference d)
  show ?thesis by (intro conjI 1 2 3 4)
qed

lemma main_first_missing_ok:
  "main env_ok first_missing = Inr (projr (main env_ok first_missing))"
  "failed_requests (fst (projr (main env_ok first_missing))) = []"
  "sent (snd (projr (main env_ok first_missing))) = [(1, 1000)]"
  "writes (snd (projr (main env_ok first_missing))) = [0]"
  by code_simp+

lemma main_monthly_first_missing_ok:
  "main_monthly env_ok first_missing_monthly =
     Some (Inr (\<lparr>successful = 9, failed = [], done_files = map filename reference_ranges\<rparr>,
                first_missing_monthly\<lparr>sent := [(''1938-01-01'', ''1947-12-31'')], slept := [2],
                  files := tl (map filename reference_ranges) @ [''FIPS10003_avg_1938_to_1947.json''],
                  writes := [''FIPS10003_avg_1938_to_1947.json'']\<rparr>))"
  unfolding main_monthly_eq reference_files first_missing_monthly_eval
  by (simp add: check_existing_files_monthly_def reference_ranges_def make_range_def
        str_int_eval enumerate1_def process_range_def make_api_request_monthly_def
        env_ok_def always_ok_def good_disk_def startswith_def endswith_def send_def sleep_def
        pause_monthly_def record_failure_monthly_def count_success_monthly_def
        adjust_data_def get_results_def iterate_py_def save_data_def record_count_def
        create_file_def Let_def upt_conv_Cons)

theorem resume_idempotent_witness:
  "main env_ok first_missing = Inr (projr (main env_ok first_missing))
   \<and> sent (snd (projr (main env_ok first_missing))) = [(1, 1000)]
   \<and> main env_404 (snd (projr (main env_ok first_missing)))
       = Inr (projr (main env_ok first_missing))
   \<and> main_monthly env_404
        (first_missing_monthly\<lparr>sent := [(''1938-01-01'', ''1947-12-31'')], slept := [2],
           files := tl (map filename reference_ranges) @ [''FIPS10003_avg_1938_to_1947.json''],
           writes := [''FIPS10003_avg_1938_to_1947.json'']\<rparr>)
       = main_monthly env_ok first_missing_monthly"
proof -
  have m: "main env_ok first_missing
      = Inr (fst (projr (main env_ok first_missing)), snd (projr (main env_ok first_missing)))"
    using main_first_missing_ok(1) by simp
  have f: "failed \<lparr>successful = 9, failed = [], done_files = map filename reference_ranges\<rparr> = []"
    by simp
  from resume_idempotent[OF m main_first_missing_ok(2) main_monthly_first_missing_ok f,
      of env_404 env_404]
  have "main env_404 (snd (projr (main env_ok first_missing)))
       = Inr (projr (main env_ok first_missing))"
    and "main_monthly env_404
        (first_missing_monthly\<lparr>sent := [(''1938-01-01'', ''1947-12-31'')], slept := [2],
           files := tl (map filename reference_ranges) @ [''FIPS10003_avg_1938_to_1947.json''],
           writes := [''FIPS10003_avg_1938_to_1947.json'']\<rparr>)
       = main_monthly env_ok first_missing_monthly"
    unfolding main_monthly_first_missing_ok by simp_all
  with main_first_missing_ok(1,3) show ?thesis by (intro conjI)
qed

text \<open>
  Claim C9 as stated fails for a run that ends with a failed chunk: with the files of all
  chunks but chunk 0 present and a server that answers 404, the first run ends with chunk
  0 in its failed list after one request, and the second run, from the state the first
  left and with the same server and disk, sends a request for chunk 0 again.
\<close>

theorem resume_idempotent_counterexample:
  "main env_404 first_missing = Inr (projr (main env_404 first_missing))
   \<and> failed_requests (fst (projr (main env_404 first_missing)))
       = [(0, ''HTTP Error 404: Not Found'')]
   \<and> length (sent (snd (projr (main env_404 first_missing)))) = 1
   \<and> length (sent (snd (projr (main env_404 (snd (projr (main env_404 first_missing))))))) = 2"
  by (intro conjI main_first_missing_404)

section \<open>Bodies of an unexpected shape and faults that are not caught\<close>

lemma make_api_request_decoded:
  assumes "nt (length (sent w)) = HTTP code reason (Decoded data)" "200 \<le> code" "code < 300"
  shows "make_api_request nt offset limit retry_count w = ((Some data, None), send (offset, limit) w)"
proof -
  have "attempt nt offset limit retry_count w = Inl ((Some data, None), send (offset, limit) w)"
    using assms by (simp add: attempt_def Let_def)
  then show ?thesis by (subst make_api_request_unfold) simp
qed

lemma map_of_set_key: "map_of (set_key k v kvs) k = Some v"
  by (induction kvs) auto

lemma set_key_nonempty: "set_key k v kvs \<noteq> []"
  by (cases kvs) auto

lemma key_in_set_key: "k \<in> fst ` set (set_key k v kvs)"
  by (induction kvs) auto

lemma adjust_data_no_results:
  assumes "''results'' \<notin> fst ` set kvs"
  shows "adjust_data (JObj kvs) = Inr (JObj (set_key ''results'' (JArr []) kvs))"
proof -
  have "map_of kvs ''results'' = None" using assms by (simp add: map_of_eq_None_iff)
  then show ?thesis by (simp add: adjust_data_def get_results_def iterate_py_def)
qed

lemma record_count_adjusted:
  "record_count (JObj (set_key ''results'' (JArr xs) kvs)) = Inr (length xs)"
  using key_in_set_key[of "''results''" "JArr xs" kvs]
  by (simp add: record_count_def set_key_nonempty get_results_def map_of_set_key)

text \<open>
  Claim C4, as amended. A chunk whose fetch returns a 2xx response with a JSON object
  that has no \<open>results\<close> key is handled differently by the two scripts. In offset mode
  it is recorded as failed with the error text \<open>Unknown error\<close> after that single
  request, and nothing is written. In date mode the executor reads the missing key as
  an empty list of results, and the chunk is saved and counted as successful (when the
  write succeeds), again after a single request.
\<close>

theorem missing_results_handling:
  fixes w :: offset_world and wm :: date_world
  assumes "i \<notin> set existing_files"
    and "net e (length (sent w)) = HTTP code reason (Decoded (JObj kvs))"
    and "200 \<le> code" "code < 300" "''results'' \<notin> fst ` set kvs"
    and "filename info \<notin> set existing_monthly"
    and "net em (length (sent wm)) = HTTP codem reasonm (Decoded (JObj kvsm))"
    and "200 \<le> codem" "codem < 300" "''results'' \<notin> fst ` set kvsm"
    and "open_ok (disk em (length (writes wm)))" "dump_ok (disk em (length (writes wm)))"
  shows "process_chunk e existing_files n i (r, w)
           = Inr (record_failure i ''Unknown error'' r,
                  pause_between i n (send (chunk_offset LIMIT i, LIMIT) w))
     \<and> process_range em existing_monthly nm (j, info) (rm, wm)
           = Inr (count_success_monthly (filename info) rm,
                  pause_monthly j nm
                    (create_file (filename info)
                       ((send (start_date info, end_date info) wm)
                          \<lparr>writes := writes wm @ [filename info]\<rparr>)))"
proof
  have m: "make_api_request (net e) (i * LIMIT + 1) LIMIT 0 w
             = ((Some (JObj kvs), None), send (i * LIMIT + 1, LIMIT) w)"
    by (rule make_api_request_decoded[where nt="net e" and w=w and code=code and reason=reason
          and data="JObj kvs", OF assms(2,3,4)])
  have d: "data_and_results (JObj kvs) = Inr False"
    using assms(5) by (simp add: data_and_results_def)
  show "process_chunk e existing_files n i (r, w)
           = Inr (record_failure i ''Unknown error'' r,
                  pause_between i n (send (chunk_offset LIMIT i, LIMIT) w))"
    using assms(1)
    by (simp add: process_chunk_def m d error_or_unknown_def chunk_offset_def)
next
  let ?w1 = "send (start_date info, end_date info) wm"
  let ?d = "JObj (set_key ''results'' (JArr []) kvsm)"
  have m: "make_api_request_monthly (net em) (start_date info) (end_date info) wm
             = Inr ((Some ?d, None), ?w1)"
    using assms(7,8,9) adjust_data_no_results[OF assms(10)]
    by (simp add: make_api_request_monthly_def Let_def)
  have s: "save_data (disk em) ?d (filename info) ?w1
             = (True, create_file (filename info) (?w1\<lparr>writes := writes wm @ [filename info]\<rparr>))"
    using assms(11,12) by (simp add: save_data_def Let_def record_count_adjusted)
  show "process_range em existing_monthly nm (j, info) (rm, wm)
           = Inr (count_success_monthly (filename info) rm,
                  pause_monthly j nm
                    (create_file (filename info)
                       ((send (start_date info, end_date info) wm)
                          \<lparr>writes := writes wm @ [filename info]\<rparr>)))"
    using assms(6) by (simp add: process_range_def m s set_key_nonempty Let_def)
qed

theorem missing_results_handling_witness:
  "process_chunk env_empty_object [] 39 0 (empty_report, fresh_world)
     = Inr (record_failure 0 ''Unknown error'' empty_report,
            pause_between 0 39 (send (chunk_offset LIMIT 0, LIMIT) fresh_world))
   \<and> process_range env_empty_object [] 9 (1, make_range 2018 10 1938)
       (empty_report_monthly, fresh_world)
     = Inr (count_success_monthly (filename (make_range 2018 10 1938)) empty_report_monthly,
            pause_monthly 1 9
              (create_file (filename (make_range 2018 10 1938))
                 ((send (start_date (make_range 2018 10 1938),
                         end_date (make_range 2018 10 1938)) fresh_world)
                    \<lparr>writes := writes (fresh_world :: date_world)
                                 @ [filename (make_range 2018 10 1938)]\<rparr>)))"
proof -
  have h1: "(0::int) \<notin> set []" "filename (make_range 2018 10 1938) \<notin> set []" by simp_all
  have h2: "net env_empty_object (length (sent (fresh_world :: offset_world)))
              = HTTP 200 ''OK'' (Decoded (JObj []))"
    "net env_empty_object (length (sent (fresh_world :: date_world)))
              = HTTP 200 ''OK'' (Decoded (JObj []))"
    by (simp_all add: env_empty_object_def always_empty_object_def)
  have h3: "(200::int) \<le> 200" "(200::int) < 300" "''results'' \<notin> fst ` set []" by simp_all
  have h4: "open_ok (disk env_empty_object (length (writes (fresh_world :: date_world))))"
    "dump_ok (disk env_empty_object (length (writes (fresh_world :: date_world))))"
    by (simp_all add: env_empty_object_def good_disk_def)
  note t = missing_results_handling[where e=env_empty_object and em=env_empty_object
          and w=fresh_world and wm=fresh_world and kvs="[]" and kvsm="[]",
          OF h1(1) h2(1) h3 h1(2) h2(2) h3 h4]
  show ?thesis by (rule t)
qed

lemma main_monthly_first_missing_empty_object:
  "main_monthly env_empty_object first_missing_monthly =
     Some (Inr (\<lparr>successful = 9, failed = [], done_files = map filename reference_ranges\<rparr>,
                first_missing_monthly\<lparr>sent := [(''1938-01-01'', ''1947-12-31'')], slept := [2],
                  files := tl (map filename reference_ranges) @ [''FIPS10003_avg_1938_to_1947.json''],
                  writes := [''FIPS10003_avg_1938_to_1947.json'']\<rparr>))"
  unfolding main_monthly_eq reference_files first_missing_monthly_eval
  by (simp add: check_existing_files_monthly_def reference_ranges_def make_range_def
        str_int_eval enumerate1_def process_range_def make_api_request_monthly_def
        env_empty_object_def always_empty_object_def good_disk_def startswith_def endswith_def
        send_def sleep_def
        pause_monthly_def record_failure_monthly_def count_success_monthly_def
        adjust_data_def get_results_def iterate_py_def save_data_def record_count_def
        create_file_def Let_def upt_conv_Cons)

text \<open>
  Claim C4 as stated fails in date mode: with the files of all ranges but the first
  present and a server that answers 200 with the body \<^verbatim>\<open>{}\<close>, the run ends with an empty
  failed list, the first range counted as successful and its file written.
\<close>

theorem missing_results_handling_counterexample:
  "net env_empty_object 0 = HTTP 200 ''OK'' (Decoded (JObj []))
   \<and> main_monthly env_empty_object first_missing_monthly =
     Some (Inr (\<lparr>successful = 9, failed = [], done_files = map filename reference_ranges\<rparr>,
                first_missing_monthly\<lparr>sent := [(''1938-01-01'', ''1947-12-31'')], slept := [2],
                  files := tl (map filename reference_ranges) @ [''FIPS10003_avg_1938_to_1947.json''],
                  writes := [''FIPS10003_avg_1938_to_1947.json'']\<rparr>))"
  using main_monthly_first_missing_empty_object
  by (simp add: env_empty_object_def always_empty_object_def)

text \<open>
  Claim C7 does not hold of the code. In offset mode, when the data directory cannot be
  created, the \<^verbatim>\<open>OSError\<close> of \<^verbatim>\<open>os.makedirs\<close> leaves \<^verbatim>\<open>save_to_file\<close> and \<^verbatim>\<open>main\<close> at the
  first chunk fetched, and no later chunk is attempted. In date mode, a 200 response
  whose JSON body is a list makes the executor itself raise \<^verbatim>\<open>AttributeError\<close>, which
  ends \<^verbatim>\<open>main\<close> as well.
\<close>

theorem uncaught_faults:
  "main env_no_directory fresh_world = Inl OSError
   \<and> make_api_request_monthly always_list ''1938-01-01'' ''1947-12-31'' fresh_world
       = Inl AttributeError
   \<and> main_monthly env_list fresh_world = Some (Inl AttributeError)"
proof (intro conjI)
  show "main env_no_directory fresh_world = Inl OSError" by code_simp
  show "make_api_request_monthly always_list ''1938-01-01'' ''1947-12-31'' fresh_world
       = Inl AttributeError"
    by (simp add: make_api_request_monthly_def always_list_def adjust_data_def get_results_def)
  show "main_monthly env_list fresh_world = Some (Inl AttributeError)"
    unfolding main_monthly_eq
    by (simp add: check_existing_files_monthly_def reference_ranges_def make_range_def
        str_int_eval enumerate1_def process_range_def make_api_request_monthly_def
        env_list_def always_list_def fresh_world_def adjust_data_def get_results_def
        Let_def upt_conv_Cons)
qed

section \<open>The run report, chunk by chunk\<close>

lemma attempt_Inl_error:
  assumes "attempt nt offset limit retry_count w = Inl ((data, Some err), w')"
  shows "err \<noteq> []" "data = None"
  using assms
  by (auto simp: attempt_def Let_def split: response.splits body.splits if_splits)

lemma make_api_request_error:
  assumes "make_api_request nt offset limit retry_count w = ((data, Some err), w')"
  shows "err \<noteq> [] \<and> data = None"
  using assms
proof (induction "nat (MAX_RETRIES - retry_count)" arbitrary: retry_count w rule: less_induct)
  case less
  show ?case
  proof (cases "attempt nt offset limit retry_count w")
    case (Inl res)
    have "res = ((data, Some err), w')"
      using less.prems by (subst (asm) make_api_request_unfold) (simp add: Inl)
    with Inl attempt_Inl_error[of nt offset limit retry_count w data err w']
    show ?thesis by simp
  next
    case (Inr w1)
    have e: "make_api_request nt offset limit (retry_count + 1) w1 = ((data, Some err), w')"
      using less.prems by (subst (asm) make_api_request_unfold) (simp add: Inr)
    have "nat (MAX_RETRIES - (retry_count + 1)) < nat (MAX_RETRIES - retry_count)"
      using attempt_Inr(1)[OF Inr] by linarith
    from less.hyps[OF this e] show ?thesis .
  qed
qed

lemma make_api_request_shape:
  "(\<exists>d w1. make_api_request nt offset limit retry_count w = ((Some d, None), w1))
   \<or> (\<exists>err w1. err \<noteq> [] \<and> make_api_request nt offset limit retry_count w = ((None, Some err), w1))"
proof -
  obtain data error w1 where m: "make_api_request nt offset limit retry_count w = ((data, error), w1)"
    by (metis surj_pair)
  from make_api_request_effects[of retry_count nt offset limit w]
  have x: "(data = None) \<noteq> (error = None)" unfolding m by auto
  show ?thesis
  proof (cases error)
    case None
    with x m show ?thesis by auto
  next
    case (Some err)
    with make_api_request_error[OF m[unfolded Some]] m show ?thesis by auto
  qed
qed

lemma process_chunk_disposition:
  assumes "process_chunk e existing_files n i (r, w) = Inr (r', w')"
  shows "case chunk_disposition e existing_files i w of
           Inl x \<Rightarrow> False
         | Inr Skipped \<Rightarrow> r' = count_success i r \<and> i \<in> set existing_files \<and> w' = w
         | Inr Persisted \<Rightarrow> r' = count_success i r \<and> i \<notin> set existing_files
         | Inr (Failed msg) \<Rightarrow> r' = record_failure i msg r \<and> i \<notin> set existing_files"
proof (cases "i \<in> set existing_files")
  case True
  with assms show ?thesis by (simp add: process_chunk_skip chunk_disposition_def)
next
  case False
  from make_api_request_shape[of "net e" "i * LIMIT + 1" LIMIT 0 w] show ?thesis
  proof (elim disjE exE conjE)
    fix d w1
    assume m: "make_api_request (net e) (i * LIMIT + 1) LIMIT 0 w = ((Some d, None), w1)"
    show ?thesis using assms False
      by (auto simp: process_chunk_def chunk_disposition_def chunk_offset_def m Let_def
            error_or_unknown_def split: sum.splits bool.splits prod.splits)
  next
    fix err w1
    assume m: "err \<noteq> []"
      "make_api_request (net e) (i * LIMIT + 1) LIMIT 0 w = ((None, Some err), w1)"
    show ?thesis using assms False
      by (simp add: process_chunk_def chunk_disposition_def chunk_offset_def m Let_def
            error_or_unknown_def)
  qed
qed

lemma run_chunks_append:
  "run_chunks e existing_files n (xs @ ys) s =
     (case run_chunks e existing_files n xs s of
        Inl x \<Rightarrow> Inl x
      | Inr s' \<Rightarrow> run_chunks e existing_files n ys s')"
  by (induction xs arbitrary: s) (auto split: sum.splits)

lemma run_chunks_grow:
  assumes "run_chunks e existing_files n chunks (r, w) = Inr (r', w')"
  shows "set (completed r) \<subseteq> set (completed r')
       \<and> set (failed_requests r) \<subseteq> set (failed_requests r')"
  using assms
proof (induction chunks arbitrary: r w)
  case Nil
  then show ?case by simp
next
  case (Cons i rest)
  from Cons.prems obtain r1 w1 where
    p: "process_chunk e existing_files n i (r, w) = Inr (r1, w1)"
    and q: "run_chunks e existing_files n rest (r1, w1) = Inr (r', w')"
    by (auto split: sum.splits)
  from process_chunk_step[OF p]
  have "set (completed r) \<subseteq> set (completed r1)
       \<and> set (failed_requests r) \<subseteq> set (failed_requests r1)" by auto
  with Cons.IH[OF q] show ?case by blast
qed

lemma range_py_split:
  assumes "k < n"
  shows "range_py (int n) = range_py (int k) @ int k # map int [Suc k..<n]"
proof -
  have "[0..<k + (n - k)] = [0..<k] @ [k..<k + (n - k)]" by (rule upt_add_eq_append) simp
  then have "[0..<n] = [0..<k] @ [k..<n]" using assms by simp
  also have "[k..<n] = k # [Suc k..<n]" using assms by (simp add: upt_conv_Cons)
  finally show ?thesis by (simp add: range_py_def)
qed

lemma main_dispositions:
  assumes "main e w = Inr (r, w')" and "i \<in> set (range_py 39)"
  shows "\<exists>ri wi. state_before e w i = Inr (ri, wi)
           \<and> (case chunk_disposition e (check_existing_files w) i wi of
                 Inl x \<Rightarrow> False
               | Inr Skipped \<Rightarrow> i \<in> set (completed r) \<and> i \<in> set (files w)
               | Inr Persisted \<Rightarrow> i \<in> set (completed r) \<and> i \<notin> set (files w)
               | Inr (Failed msg) \<Rightarrow> (i, msg) \<in> set (failed_requests r) \<and> i \<notin> set (files w))"
proof -
  let ?ex = "check_existing_files w"
  from assms(2) obtain k where k: "i = int k" "k < 39" by (auto simp: range_py_def)
  have sp: "range_py 39 = range_py i @ i # map int [Suc k..<39]"
    using range_py_split[OF k(2)] k(1) by simp
  have m: "run_chunks e ?ex 39 (range_py i @ i # map int [Suc k..<39]) (empty_report, w)
             = Inr (r, w')"
    using assms(1) unfolding sp[symmetric]
    by (simp add: main_def Let_def num_requests_reference empty_report_def)
  then obtain ri wi where
    pre: "run_chunks e ?ex 39 (range_py i) (empty_report, w) = Inr (ri, wi)"
    and post: "run_chunks e ?ex 39 (i # map int [Suc k..<39]) (ri, wi) = Inr (r, w')"
    unfolding run_chunks_append by (auto split: sum.splits)
  from post obtain r1 w1 where
    p: "process_chunk e ?ex 39 i (ri, wi) = Inr (r1, w1)"
    and q: "run_chunks e ?ex 39 (map int [Suc k..<39]) (r1, w1) = Inr (r, w')"
    by (auto split: sum.splits)
  note g = run_chunks_grow[OF q]
  note d = process_chunk_disposition[OF p]
  have ex: "i \<in> set ?ex \<longleftrightarrow> i \<in> set (files w)"
    using assms(2) by (simp add: set_check_existing_files)
  have "case chunk_disposition e ?ex i wi of
                 Inl x \<Rightarrow> False
               | Inr Skipped \<Rightarrow> i \<in> set (completed r) \<and> i \<in> set (files w)
               | Inr Persisted \<Rightarrow> i \<in> set (completed r) \<and> i \<notin> set (files w)
               | Inr (Failed msg) \<Rightarrow> (i, msg) \<in> set (failed_requests r) \<and> i \<notin> set (files w)"
  proof (cases "chunk_disposition e ?ex i wi")
    case (Inl x)
    with d show ?thesis by simp
  next
    case (Inr disp)
    show ?thesis
    proof (cases disp)
      case Skipped
      with d Inr g ex show ?thesis by auto
    next
      case Persisted
      with d Inr g ex show ?thesis by auto
    next
      case (Failed msg)
      with d Inr g ex show ?thesis by auto
    qed
  qed
  with pre show ?thesis by (simp add: state_before_def num_requests_reference)
qed

lemma process_range_disposition:
  assumes "process_range e existing_files n (i, info) (r, w) = Inr (r', w')"
  shows "case range_disposition e existing_files info w of
           Inl x \<Rightarrow> False
         | Inr Skipped_file \<Rightarrow>
             r' = count_success_monthly (filename info) r \<and> filename info \<in> set existing_files
         | Inr Persisted_file \<Rightarrow>
             r' = count_success_monthly (filename info) r \<and> filename info \<notin> set existing_files
         | Inr Failed_file \<Rightarrow>
             r' = record_failure_monthly (filename info) r \<and> filename info \<notin> set existing_files"
  using assms
  by (auto simp: process_range_def range_disposition_def Let_def
        split: sum.splits option.splits bool.splits prod.splits if_splits)

lemma run_ranges_append:
  "run_ranges e existing_files n (xs @ ys) s =
     (case run_ranges e existing_files n xs s of
        Inl x \<Rightarrow> Inl x
      | Inr s' \<Rightarrow> run_ranges e existing_files n ys s')"
  by (induction xs arbitrary: s) (auto split: sum.splits)

lemma run_ranges_grow:
  assumes "run_ranges e existing_files n irs (r, w) = Inr (r', w')"
  shows "set (done_files r) \<subseteq> set (done_files r') \<and> set (failed r) \<subseteq> set (failed r')"
  using assms
proof (induction irs arbitrary: r w)
  case Nil
  then show ?case by simp
next
  case (Cons ir rest)
  obtain i info where ir: "ir = (i, info)" by (cases ir)
  from Cons.prems obtain r1 w1 where
    p: "process_range e existing_files n (i, info) (r, w) = Inr (r1, w1)"
    and q: "run_ranges e existing_files n rest (r1, w1) = Inr (r', w')"
    unfolding ir by (auto split: sum.splits)
  from process_range_step[OF p]
  have "set (done_files r) \<subseteq> set (done_files r1) \<and> set (failed r) \<subseteq> set (failed r1)"
    by auto
  with Cons.IH[OF q] show ?case by blast
qed

lemma length_reference_ranges: "length reference_ranges = 9"
  by (simp add: reference_ranges_def)

lemma enumerate1_nth:
  assumes "k < length plan"
  shows "enumerate1 plan ! k = (int (Suc k), plan ! k)"
  using assms by (simp add: enumerate1_def del: upt_Suc)

lemma main_monthly_dispositions:
  assumes "main_monthly e w = Some (Inr (r, w'))" and "k < length reference_ranges"
  shows "\<exists>ri wi. state_before_monthly e w k = Inr (ri, wi)
           \<and> (case range_disposition e (check_existing_files_monthly w) (reference_ranges ! k) wi of
                 Inl x \<Rightarrow> False
               | Inr Skipped_file \<Rightarrow>
                   filename (reference_ranges ! k) \<in> set (done_files r)
                   \<and> filename (reference_ranges ! k) \<in> set (files w)
               | Inr Persisted_file \<Rightarrow> filename (reference_ranges ! k) \<in> set (done_files r)
               | Inr Failed_file \<Rightarrow> filename (reference_ranges ! k) \<in> set (failed r))"
proof -
  let ?ex = "check_existing_files_monthly w"
  let ?en = "enumerate1 reference_ranges"
  let ?info = "reference_ranges ! k"
  have kl: "k < length ?en" using assms(2) by (simp add: length_enumerate1)
  have sp: "?en = take k ?en @ (int (Suc k), ?info) # drop (Suc k) ?en"
    using id_take_nth_drop[OF kl] enumerate1_nth[OF assms(2)] by simp
  have "run_ranges e ?ex 9 ?en (empty_report_monthly, w) = Inr (r, w')"
    using assms(1) by (simp add: main_monthly_eq empty_report_monthly_def)
  then have "run_ranges e ?ex 9 (take k ?en @ (int (Suc k), ?info) # drop (Suc k) ?en)
               (empty_report_monthly, w) = Inr (r, w')"
    using sp by simp
  then obtain ri wi where
    pre: "run_ranges e ?ex 9 (take k ?en) (empty_report_monthly, w) = Inr (ri, wi)"
    and post: "run_ranges e ?ex 9 ((int (Suc k), ?info) # drop (Suc k) ?en) (ri, wi) = Inr (r, w')"
    unfolding run_ranges_append by (auto split: sum.splits)
  from post obtain r1 w1 where
    p: "process_range e ?ex 9 (int (Suc k), ?info) (ri, wi) = Inr (r1, w1)"
    and q: "run_ranges e ?ex 9 (drop (Suc k) ?en) (r1, w1) = Inr (r, w')"
    by (auto split: sum.splits)
  note g = run_ranges_grow[OF q]
  note d = process_range_disposition[OF p]
  have ex: "set ?ex \<subseteq> set (files w)" by (auto simp: check_existing_files_monthly_def)
  have "case range_disposition e ?ex ?info wi of
                 Inl x \<Rightarrow> False
               | Inr Skipped_file \<Rightarrow>
                   filename ?info \<in> set (done_files r) \<and> filename ?info \<in> set (files w)
               | Inr Persisted_file \<Rightarrow> filename ?info \<in> set (done_files r)
               | Inr Failed_file \<Rightarrow> filename ?info \<in> set (failed r)"
  proof (cases "range_disposition e ?ex ?info wi")
    case (Inl x)
    with d show ?thesis by simp
  next
    case (Inr disp)
    show ?thesis
    proof (cases disp)
      case Skipped_file
      with d Inr g ex show ?thesis by auto
    next
      case Persisted_file
      with d Inr g show ?thesis by auto
    next
      case Failed_file
      with d Inr g show ?thesis by auto
    qed
  qed
  with pre show ?thesis by (simp add: state_before_monthly_def length_reference_ranges)
qed

text \<open>
  Claim C8, as amended. At the end of every run (of either script) the chunks counted as
  completed and the chunks in the failed list are disjoint and together are exactly the
  planned chunks: the 39 indices in offset mode, the file names of the planned date
  ranges in date mode. No chunk is listed twice, the success counter is the number of
  chunks counted as completed, and every one of these has its file in the data
  directory at the end. Every planned chunk is where the run controller of the
  specification puts it, given the state in which the loop reached it: a chunk whose
  file was present is counted as completed; a chunk fetched and saved is counted as
  completed; a chunk that failed is in the failed list. In offset mode the failed entry
  carries the error detail: the executor's error text when the fetch failed,
  \<open>Unknown error\<close> when the payload had no usable results, \<open>File save error\<close> when the
  write failed. In date mode the failed list holds the file name only.
\<close>

theorem run_report_partition:
  assumes "main e w = Inr (r, w')"
    and "main_monthly em wm = Some (Inr (rm, wm'))"
  shows "set (completed r) \<inter> fst ` set (failed_requests r) = {}
     \<and> set (completed r) \<union> fst ` set (failed_requests r)
         = set (range_py (num_requests TOTAL_RECORDS LIMIT))
     \<and> distinct (completed r) \<and> distinct (map fst (failed_requests r))
     \<and> successful_requests r = int (length (completed r))
     \<and> set (completed r) \<subseteq> set (files w')
     \<and> [] \<notin> snd ` set (failed_requests r)
     \<and> (\<exists>plan. create_date_ranges = Some plan
           \<and> set (done_files rm) \<inter> set (failed rm) = {}
           \<and> set (done_files rm) \<union> set (failed rm) = set (map filename plan))
     \<and> distinct (done_files rm) \<and> distinct (failed rm)
     \<and> successful rm = int (length (done_files rm))
     \<and> set (done_files rm) \<subseteq> set (files wm')
     \<and> (\<forall>i \<in> set (range_py (num_requests TOTAL_RECORDS LIMIT)).
           \<exists>ri wi. state_before e w i = Inr (ri, wi)
             \<and> (case chunk_disposition e (check_existing_files w) i wi of
                   Inl x \<Rightarrow> False
                 | Inr Skipped \<Rightarrow> i \<in> set (completed r) \<and> i \<in> set (files w)
                 | Inr Persisted \<Rightarrow> i \<in> set (completed r) \<and> i \<notin> set (files w)
                 | Inr (Failed msg) \<Rightarrow>
                     (i, msg) \<in> set (failed_requests r) \<and> i \<notin> set (files w)))
     \<and> create_date_ranges = Some reference_ranges
     \<and> (\<forall>k < length reference_ranges.
           \<exists>ri wi. state_before_monthly em wm k = Inr (ri, wi)
             \<and> (case range_disposition em (check_existing_files_monthly wm)
                        (reference_ranges ! k) wi of
                   Inl x \<Rightarrow> False
                 | Inr Skipped_file \<Rightarrow>
                     filename (reference_ranges ! k) \<in> set (done_files rm)
                     \<and> filename (reference_ranges ! k) \<in> set (files wm)
                 | Inr Persisted_file \<Rightarrow> filename (reference_ranges ! k) \<in> set (done_files rm)
                 | Inr Failed_file \<Rightarrow> filename (reference_ranges ! k) \<in> set (failed rm)))"
proof -
  from main_effects[OF assms(1)] obtain new where a:
    "set (completed r) \<inter> fst ` set (failed_requests r) = {}"
    "set (completed r) \<union> fst ` set (failed_requests r) = set (range_py 39)"
    "distinct (completed r)" "distinct (map fst (failed_requests r))"
    "successful_requests r = int (length (completed r))"
    "set (completed r) \<subseteq> set (files w')"
    "[] \<notin> snd ` set (failed_requests r)"
    and "sent w' = sent w @ new"
    by (elim exE conjE) (rule that; assumption)
  from main_monthly_effects[OF assms(2)] obtain newm where b:
    "set (done_files rm) \<inter> set (failed rm) = {}"
    "set (done_files rm) \<union> set (failed rm) = set (map filename reference_ranges)"
    "distinct (done_files rm)" "distinct (failed rm)"
    "successful rm = int (length (done_files rm))"
    "set (done_files rm) \<subseteq> set (files wm')"
    and "sent wm' = sent wm @ newm"
    by (elim exE conjE) (rule that; assumption)
  have p: "\<exists>plan. create_date_ranges = Some plan
           \<and> set (done_files rm) \<inter> set (failed rm) = {}
           \<and> set (done_files rm) \<union> set (failed rm) = set (map filename plan)"
    by (rule exI[of _ reference_ranges]) (intro conjI create_date_ranges_reference b(1) b(2))
  have c: "\<forall>i \<in> set (range_py 39).
           \<exists>ri wi. state_before e w i = Inr (ri, wi)
             \<and> (case chunk_disposition e (check_existing_files w) i wi of
                   Inl x \<Rightarrow> False
                 | Inr Skipped \<Rightarrow> i \<in> set (completed r) \<and> i \<in> set (files w)
                 | Inr Persisted \<Rightarrow> i \<in> set (completed r) \<and> i \<notin> set (files w)
                 | Inr (Failed msg) \<Rightarrow>
                     (i, msg) \<in> set (failed_requests r) \<and> i \<notin> set (files w))"
    by (intro ballI) (rule main_dispositions[OF assms(1)])
  have d: "\<forall>k < length reference_ranges.
           \<exists>ri wi. state_before_monthly em wm k = Inr (ri, wi)
             \<and> (case range_disposition em (check_existing_files_monthly wm)
                        (reference_ranges ! k) wi of
                   Inl x \<Rightarrow> False
                 | Inr Skipped_file \<Rightarrow>
                     filename (reference_ranges ! k) \<in> set (done_files rm)
                     \<and> filename (reference_ranges ! k) \<in> set (files wm)
                 | Inr Persisted_file \<Rightarrow> filename (reference_ranges ! k) \<in> set (done_files rm)
                 | Inr Failed_file \<Rightarrow> filename (reference_ranges ! k) \<in> set (failed rm))"
    by (intro allI impI) (rule main_monthly_dispositions[OF assms(2)])
  show ?thesis unfolding num_requests_reference
    by (intro conjI a p b(3-6) c create_date_ranges_reference d)
qed

lemma first_missing_disposition:
  "state_before env_404 first_missing 0 = Inr (empty_report, first_missing)"
  "chunk_disposition env_404 (check_existing_files first_missing) 0 first_missing
     = Inr (Failed ''HTTP Error 404: Not Found'')"
  by code_simp+

theorem run_report_partition_witness:
  "main env_404 first_missing = Inr (projr (main env_404 first_missing))
   \<and> set (completed (fst (projr (main env_404 first_missing))))
     \<inter> fst ` set (failed_requests (fst (projr (main env_404 first_missing)))) = {}
   \<and> set (completed (fst (projr (main env_404 first_missing))))
     \<union> fst ` set (failed_requests (fst (projr (main env_404 first_missing))))
       = set (range_py (num_requests TOTAL_RECORDS LIMIT))
   \<and> (0, ''HTTP Error 404: Not Found'')
       \<in> set (failed_requests (fst (projr (main env_404 first_missing))))
   \<and> distinct (done_files \<lparr>successful = 8, failed = [''FIPS10003_avg_1938_to_1947.json''],
                  done_files = tl (map filename reference_ranges)\<rparr>)"
proof -
  let ?r = "fst (projr (main env_404 first_missing))"
  have m: "main env_404 first_missing
      = Inr (fst (projr (main env_404 first_missing)), snd (projr (main env_404 first_missing)))"
    using main_first_missing_404(1) by simp
  note t = run_report_partition[OF m main_monthly_first_missing]
  have z: "0 \<in> set (range_py (num_requests TOTAL_RECORDS LIMIT))"
    by (simp add: num_requests_reference range_py_def)
  from t have "\<forall>i \<in> set (range_py (num_requests TOTAL_RECORDS LIMIT)).
           \<exists>ri wi. state_before env_404 first_missing i = Inr (ri, wi)
             \<and> (case chunk_disposition env_404 (check_existing_files first_missing) i wi of
                   Inl x \<Rightarrow> False
                 | Inr Skipped \<Rightarrow> i \<in> set (completed ?r) \<and> i \<in> set (files first_missing)
                 | Inr Persisted \<Rightarrow> i \<in> set (completed ?r) \<and> i \<notin> set (files first_missing)
                 | Inr (Failed msg) \<Rightarrow>
                     (i, msg) \<in> set (failed_requests ?r) \<and> i \<notin> set (files first_missing))"
    by (elim conjE)
  from bspec[OF this z] have f: "(0, ''HTTP Error 404: Not Found'') \<in> set (failed_requests ?r)"
    by (auto simp: first_missing_disposition)
  from t main_first_missing_404(1) f
  show ?thesis by (elim conjE) (intro conjI; assumption)
qed

text \<open>
  Claim C8 as stated fails in date mode, where a failed chunk is recorded without its
  error detail: with the files of all ranges but the first present, a server that times
  out and a server that refuses the connection make the executor return different
  errors, and the two runs end with the same report and the same world.
\<close>

theorem run_report_partition_counterexample:
  "make_api_request_monthly always_timeout ''1938-01-01'' ''1947-12-31'' first_missing_monthly
     = Inr ((None, Some ''Request error: timed out''),
            first_missing_monthly\<lparr>sent := [(''1938-01-01'', ''1947-12-31'')]\<rparr>)
   \<and> make_api_request_monthly always_refused ''1938-01-01'' ''1947-12-31'' first_missing_monthly
     = Inr ((None, Some ''Request error: connection refused''),
            first_missing_monthly\<lparr>sent := [(''1938-01-01'', ''1947-12-31'')]\<rparr>)
   \<and> main_monthly env_timeout first_missing_monthly =
     Some (Inr (\<lparr>successful = 8, failed = [''FIPS10003_avg_1938_to_1947.json''],
                  done_files = tl (map filename reference_ranges)\<rparr>,
                first_missing_monthly\<lparr>sent := [(''1938-01-01'', ''1947-12-31'')], slept := [2]\<rparr>))
   \<and> main_monthly env_refused first_missing_monthly =
     Some (Inr (\<lparr>successful = 8, failed = [''FIPS10003_avg_1938_to_1947.json''],
                  done_files = tl (map filename reference_ranges)\<rparr>,
                first_missing_monthly\<lparr>sent := [(''1938-01-01'', ''1947-12-31'')], slept := [2]\<rparr>))"
proof (intro conjI)
  show "make_api_request_monthly always_timeout ''1938-01-01'' ''1947-12-31'' first_missing_monthly
     = Inr ((None, Some ''Request error: timed out''),
            first_missing_monthly\<lparr>sent := [(''1938-01-01'', ''1947-12-31'')]\<rparr>)"
    by (simp add: make_api_request_monthly_def always_timeout_def send_def
          first_missing_monthly_def fresh_world_def)
  show "make_api_request_monthly always_refused ''1938-01-01'' ''1947-12-31'' first_missing_monthly
     = Inr ((None, Some ''Request error: connection refused''),
            first_missing_monthly\<lparr>sent := [(''1938-01-01'', ''1947-12-31'')]\<rparr>)"
    by (simp add: make_api_request_monthly_def always_refused_def send_def
          first_missing_monthly_def fresh_world_def)
  show "main_monthly env_timeout first_missing_monthly =
     Some (Inr (\<lparr>successful = 8, failed = [''FIPS10003_avg_1938_to_1947.json''],
                  done_files = tl (map filename reference_ranges)\<rparr>,
                first_missing_monthly\<lparr>sent := [(''1938-01-01'', ''1947-12-31'')], slept := [2]\<rparr>))"
    unfolding main_monthly_eq reference_files first_missing_monthly_eval
    by (simp add: check_existing_files_monthly_def reference_ranges_def make_range_def
        str_int_eval enumerate1_def process_range_def make_api_request_monthly_def
        env_timeout_def always_timeout_def startswith_def endswith_def send_def sleep_def
        pause_monthly_def record_failure_monthly_def count_success_monthly_def
        Let_def upt_conv_Cons)
  show "main_monthly env_refused first_missing_monthly =
     Some (Inr (\<lparr>successful = 8, failed = [''FIPS10003_avg_1938_to_1947.json''],
                  done_files = tl (map filename reference_ranges)\<rparr>,
                first_missing_monthly\<lparr>sent := [(''1938-01-01'', ''1947-12-31'')], slept := [2]\<rparr>))"
    unfolding main_monthly_eq reference_files first_missing_monthly_eval
    by (simp add: check_existing_files_monthly_def reference_ranges_def make_range_def
        str_int_eval enumerate1_def process_range_def make_api_request_monthly_def
        env_refused_def always_refused_def startswith_def endswith_def send_def sleep_def
        pause_monthly_def record_failure_monthly_def count_success_monthly_def
        Let_def upt_conv_Cons)
qed

end
